theory Spec2Isabelle
  imports Main "HOL-Library.AList"
begin

section \<open>Python values, exceptions and dictionaries\<close>

text \<open>
  The attribute map of a user (\<open>user.values\<close>) holds strings, booleans and \<open>None\<close>.
  Request parameters (\<open>request.values.get(k, None)\<close>) are a string or \<open>None\<close>.
\<close>

datatype pyval = PNone | PStr string | PBool bool

datatype exc =
    ValueError string
  | KeyError string
  | IndexError string
  | TypeError string
  | AttributeError string
  | OtherError string

text \<open>\<open>str(e)\<close>: the message; for a \<open>KeyError\<close> the missing key in quotes.\<close>

definition str_of_exc :: "exc \<Rightarrow> string" where
  "str_of_exc e =
     (case e of
        ValueError m \<Rightarrow> m
      | KeyError k \<Rightarrow> [CHR 0x27] @ k @ [CHR 0x27]
      | IndexError m \<Rightarrow> m
      | TypeError m \<Rightarrow> m
      | AttributeError m \<Rightarrow> m
      | OtherError m \<Rightarrow> m)"

definition pyv :: "string option \<Rightarrow> pyval" where
  "pyv x = (case x of None \<Rightarrow> PNone | Some s \<Rightarrow> PStr s)"

definition str_of :: "pyval \<Rightarrow> string" where
  "str_of v = (case v of PNone \<Rightarrow> ''None'' | PStr s \<Rightarrow> s
                 | PBool b \<Rightarrow> (if b then ''True'' else ''False''))"

text \<open>Truth value of an object in a condition (\<open>if user.values['get_hospital']:\<close>).\<close>

definition truthy :: "pyval \<Rightarrow> bool" where
  "truthy v = (case v of PNone \<Rightarrow> False | PStr s \<Rightarrow> s \<noteq> [] | PBool b \<Rightarrow> b)"

text \<open>\<open>d[k]\<close> on a dictionary with string keys: a missing key raises \<open>KeyError\<close>.\<close>

definition getitem :: "(string \<times> 'a) list \<Rightarrow> string \<Rightarrow> exc + 'a" where
  "getitem d k = (case map_of d k of None \<Rightarrow> Inl (KeyError k) | Some v \<Rightarrow> Inr v)"

text \<open>Sequencing of computations that may raise: the first exception propagates.\<close>

definition and_then :: "exc + 'a \<Rightarrow> ('a \<Rightarrow> exc + 'b) \<Rightarrow> exc + 'b" where
  "and_then r f = (case r of Inl e \<Rightarrow> Inl e | Inr v \<Rightarrow> f v)"

text \<open>\<open>instructions += s\<close> for a string \<open>s\<close>: a \<open>TypeError\<close> unless the left side is a string.\<close>

definition iadd_str :: "pyval \<Rightarrow> string \<Rightarrow> exc + pyval" where
  "iadd_str v s = (case v of PStr t \<Rightarrow> Inr (PStr (t @ s))
                     | PNone \<Rightarrow> Inl (TypeError ''unsupported operand type(s) for +='')
                     | PBool b \<Rightarrow> Inl (TypeError ''unsupported operand type(s) for +=''))"

text \<open>Whether \<open>except ValueError\<close> catches the exception.\<close>

definition is_value_error :: "exc \<Rightarrow> bool" where
  "is_value_error e = (case e of ValueError ve \<Rightarrow> True | _ \<Rightarrow> False)"

text \<open>
  \<open>BaseException.with_traceback(tb)\<close> takes exactly one argument and returns the
  exception; called with any other number of arguments it raises \<open>TypeError\<close>.
  The traceback argument itself is not modelled (\<open>unit\<close>).
\<close>

definition with_traceback :: "exc \<Rightarrow> unit list \<Rightarrow> exc + exc" where
  "with_traceback e args =
     (case args of [tb] \<Rightarrow> Inr e
        | _ \<Rightarrow> Inl (TypeError ''with_traceback() takes exactly one argument''))"

section \<open>Users, hospitals and the external collaborators\<close>

text \<open>
  A user object has a phone number (\<open>uuid\<close>) and a dictionary of collected values
  (\<open>values\<close>, here \<open>user_values\<close>). The dictionary is an association list in insertion
  order; \<open>AList.update\<close> overwrites in place or appends, as a Python dict does.
  Objects are modelled by value: no statement below depends on two references sharing
  one object.
\<close>

type_synonym attrs = "(string \<times> pyval) list"

record user =
  uuid :: pyval
  user_values :: attrs

text \<open>A hospital record as the matcher returns it: \<open>hosp["attributes"]["NAME"]\<close> etc.\<close>

type_synonym hospital = "(string \<times> (string \<times> string) list) list"

text \<open>
  The modules \<open>triage\<close>, \<open>matching.match_users\<close>, the Twilio client, the intake
  engine's \<open>get_response\<close> and \<open>configuration.yml\<close> are not part of the sources; they
  are parameters. An external call may answer differently each time it is made: its first
  argument is the number of the pipeline pass in which it is made (\<open>clock\<close> below). The
  match weights are passed through uninterpreted (\<open>'w\<close>).
\<close>

record 'w env =
  zip_code_radius :: int
  twilio_number :: string
  get_hospital_records_within_distance :: "nat \<Rightarrow> pyval \<Rightarrow> int \<Rightarrow> exc + hospital list"
  get_match_weights :: "nat \<Rightarrow> pyval \<Rightarrow> pyval \<Rightarrow> hospital list \<Rightarrow> exc + 'w"
  make_hospital_choice :: "nat \<Rightarrow> hospital list \<Rightarrow> 'w \<Rightarrow> exc + hospital list"
  messages_create :: "nat \<Rightarrow> string \<Rightarrow> pyval \<Rightarrow> pyval \<Rightarrow> exc + unit"
  get_response :: "pyval \<Rightarrow> string \<Rightarrow> (pyval \<times> user) list
                     \<Rightarrow> exc + ((string \<times> bool) \<times> (pyval \<times> user) list)"

section \<open>\<open>get_triage_instructions\<close>\<close>

definition triage_responses :: "(pyval \<times> (pyval \<times> pyval)) list" where
  "triage_responses =
    [(PStr ''home'', (PStr ''Stay at home, rest, and take medication as necessary'', PBool False)),
     (PStr ''LEVEL 1'', (PStr ''Please seek Triage Level 1 assistance; you will be provided with a list of nearby hospitals/clinics:'', PBool True)),
     (PStr ''LEVEL 2'', (PStr ''Please seek Triage Level 2 assistance; you will be provided with a list of nearby hospitals/clinics:'', PBool True)),
     (PStr ''LEVEL 3'', (PStr ''Please seek Triage Level 3 assistance; you will be provided with a list of nearby hospitals/clinics:'', PBool True)),
     (PStr ''LEVEL 4'', (PStr ''Please seek Triage Level 4 assistance; you will be provided with a list of nearby hospitals/clinics:'', PBool True)),
     (PStr ''gettest'', (PStr ''Please get tested for COVID-19; you will be provided with a list of nearby testing locations:'', PBool False)),
     (PStr ''checkinlater8'', (PStr ''Please stay put and text back in 8 hours'', PBool False)),
     (PStr ''checkinlater16'', (PStr ''Please stay put and text back in 16 hours'', PBool False)),
     (PStr ''checkinlater24'', (PStr ''Please stay put and text back in 24 hours'', PBool False))]"

definition get_triage_instructions :: "pyval \<Rightarrow> pyval \<times> pyval" where
  "get_triage_instructions triage_code =
     (case map_of triage_responses triage_code of
        Some r \<Rightarrow> r
      | None \<Rightarrow> (PNone, PNone))"

text \<open>The known set of disposition codes: the keys of the table.\<close>

definition known_codes :: "pyval list" where
  "known_codes = map fst triage_responses"

section \<open>One pass of the worker's pipeline\<close>

definition nl :: char where
  "nl = CHR 0x0A"

text \<open>The text appended for one selected hospital (the five f-strings, in order).\<close>

definition hospital_text :: "hospital \<Rightarrow> exc + string" where
  "hospital_text hosp =
     and_then (getitem hosp ''attributes'') (\<lambda>a1. and_then (getitem a1 ''NAME'') (\<lambda>name.
     and_then (getitem hosp ''attributes'') (\<lambda>a2. and_then (getitem a2 ''ADDRESS'') (\<lambda>address.
     and_then (getitem hosp ''attributes'') (\<lambda>a3. and_then (getitem a3 ''CITY'') (\<lambda>city.
     and_then (getitem hosp ''attributes'') (\<lambda>a4. and_then (getitem a4 ''STATE'') (\<lambda>state.
     and_then (getitem hosp ''attributes'') (\<lambda>a5. and_then (getitem a5 ''ZIP'') (\<lambda>zip.
       Inr (name @ '' '' @ [nl] @ '' '' @ address @ '' '' @ [nl] @ '' '' @ city @ '', ''
            @ state @ ''  '' @ zip @ [nl, nl])))))))))))"

fun append_hospitals :: "pyval \<Rightarrow> hospital list \<Rightarrow> exc + pyval" where
  "append_hospitals instructions [] = Inr instructions"
| "append_hospitals instructions (hosp # rest) =
     (case hospital_text hosp of
        Inl e \<Rightarrow> Inl e
      | Inr txt \<Rightarrow>
          (case iadd_str instructions txt of
             Inl e \<Rightarrow> Inl e
           | Inr instructions' \<Rightarrow> append_hospitals instructions' rest))"

definition care_centers_header :: string where
  "care_centers_header =
     [nl, nl] @ ''Please choose one of the following care centers:'' @ [nl] @ '' ''"

text \<open>
  The body of the inner \<open>try\<close> (lines 139 to 154), run as pass number \<open>n\<close>. It returns
  the message handed to \<open>client.messages.create\<close> as (recipient, body), or the
  exception that left the \<open>try\<close> body.
\<close>

definition pipeline_pass :: "'w env \<Rightarrow> nat \<Rightarrow> user \<Rightarrow> exc + (pyval \<times> pyval)" where
  "pipeline_pass env n u =
     and_then (getitem (user_values u) ''triage_instructions'') (\<lambda>instructions.
     and_then (getitem (user_values u) ''get_hospital'') (\<lambda>get_hospital.
     and_then
       (if truthy get_hospital then
          and_then (getitem (user_values u) ''zip_code'') (\<lambda>user_zip_code.
          and_then (get_hospital_records_within_distance env n user_zip_code (zip_code_radius env))
            (\<lambda>hospitals.
          and_then (getitem (user_values u) ''triage_code'') (\<lambda>triage_code.
          and_then (get_match_weights env n user_zip_code triage_code hospitals) (\<lambda>weights.
          and_then (make_hospital_choice env n hospitals weights) (\<lambda>selected_hospitals.
          and_then (iadd_str instructions care_centers_header) (\<lambda>instructions1.
            append_hospitals instructions1 selected_hospitals))))))
        else Inr instructions) (\<lambda>body.
     and_then (getitem (user_values u) ''phone_number'') (\<lambda>to.
     and_then (messages_create env n (twilio_number env) body to) (\<lambda>_.
       Inr (to, body))))))"

section \<open>The shared state and the work-available condition\<close>

text \<open>
  The program counter of a worker thread inside \<open>do_work\<close>:
  \<^item> \<open>WStart\<close>: at the top of the outer loop, about to enter \<open>with work_available_condition\<close>;
  \<^item> \<open>WLocked\<close>: inside the \<open>with\<close> block, about to call \<open>to_respond_queue.popleft()\<close>;
  \<^item> \<open>WPipeline u\<close>: at the top of the inner loop with \<open>user = u\<close>;
  \<^item> \<open>WSleep u\<close>: in the \<open>ValueError\<close> handler after the print, about to \<open>time.sleep(1)\<close>;
  \<^item> \<open>WRelease\<close>: after a \<open>break\<close> of the inner loop, about to leave the \<open>with\<close> block;
  \<^item> \<open>WWaiting\<close>: suspended inside \<open>work_available_condition.wait()\<close>;
  \<^item> \<open>WNotified\<close>: woken by a \<open>notify()\<close>, about to take the lock again inside \<open>wait()\<close>;
  \<^item> \<open>WWoken\<close>: \<open>wait()\<close> has returned with the lock, about to leave the \<open>with\<close> block.
\<close>

datatype wpc =
    WStart
  | WLocked
  | WPipeline user
  | WSleep user
  | WRelease
  | WWaiting
  | WNotified
  | WWoken

text \<open>
  The history of a run, in order: the records appended to and popped from
  \<open>to_respond_queue\<close>, the lines printed to \<open>sys.stderr\<close>, the seconds slept and the
  messages sent (recipient, body). The program keeps no such history; the state carries it
  so that statements can speak about what has happened.
\<close>

datatype event =
    Enqueued user
  | Dequeued user
  | Logged string
  | Slept nat
  | Sent pyval pyval

record state =
  user_queue :: "user list"
  to_respond_queue :: "user list"
  users :: "(pyval \<times> user) list"
  lock_owner :: "nat option"
  waiters :: "nat list"
  pcs :: "nat \<Rightarrow> wpc"
  clock :: nat
  trace :: "event list"

text \<open>The two worker threads started in \<open>__main__\<close> (\<open>range(2)\<close>) are threads 0 and 1.\<close>

definition n_workers :: nat where
  "n_workers = 2"

text \<open>The state after the module has been loaded and the workers have been started.\<close>

definition init :: state where
  "init = \<lparr>user_queue = [], to_respond_queue = [], users = [], lock_owner = None,
           waiters = [], pcs = (\<lambda>t. WStart), clock = 0, trace = []\<rparr>"

text \<open>
  \<open>Condition.wait()\<close> by the thread \<open>t\<close> that holds the lock: the lock is released and
  the thread joins the waiters. \<open>Condition.notify()\<close> wakes the longest-waiting thread,
  if there is one; that thread still has to take the lock before its \<open>wait()\<close> returns.
\<close>

definition cond_wait :: "nat \<Rightarrow> state \<Rightarrow> state" where
  "cond_wait t s = s\<lparr>lock_owner := None, waiters := waiters s @ [t], pcs := (pcs s)(t := WWaiting)\<rparr>"

definition cond_notify :: "state \<Rightarrow> state" where
  "cond_notify s =
     (case waiters s of
        [] \<Rightarrow> s
      | w # ws \<Rightarrow> s\<lparr>waiters := ws, pcs := (pcs s)(w := WNotified)\<rparr>)"

definition emit :: "event \<Rightarrow> state \<Rightarrow> state" where
  "emit ev s = s\<lparr>trace := trace s @ [ev]\<rparr>"

section \<open>The worker thread \<open>do_work\<close>\<close>

text \<open>
  The \<open>KeyError\<close> handler (lines 159 to 161): the argument of the print is evaluated
  first, and it calls \<open>ke.with_traceback()\<close> with no argument. Only if that call returns is
  the line printed and the inner loop left by \<open>break\<close>; an exception raised by it leaves
  the inner loop and reaches the outer bare \<open>except\<close>, which calls \<open>wait()\<close>.
\<close>

definition key_error_handler :: "nat \<Rightarrow> exc \<Rightarrow> state \<Rightarrow> state" where
  "key_error_handler t ke s =
     (case with_traceback ke [] of
        Inl e \<Rightarrow> cond_wait t s
      | Inr ke' \<Rightarrow>
          (emit (Logged (''Value not found: '' @ str_of_exc ke')) s)\<lparr>pcs := (pcs s)(t := WRelease)\<rparr>)"

text \<open>
  One step of worker \<open>t\<close>; \<open>None\<close> when the thread cannot move (it needs the lock and
  another thread holds it, or it is suspended in \<open>wait()\<close>, or it is not a worker).
\<close>

definition worker_step :: "'w env \<Rightarrow> nat \<Rightarrow> state \<Rightarrow> state option" where
  "worker_step env t s =
     (if \<not> t < n_workers then None
      else case pcs s t of
        WStart \<Rightarrow>
          (if lock_owner s = None
           then Some (s\<lparr>lock_owner := Some t, pcs := (pcs s)(t := WLocked)\<rparr>)
           else None)
      | WLocked \<Rightarrow>
          (case to_respond_queue s of
             [] \<Rightarrow> Some (cond_wait t s)
           | u # q \<Rightarrow>
               Some ((emit (Dequeued u) s)\<lparr>to_respond_queue := q, pcs := (pcs s)(t := WPipeline u)\<rparr>))
      | WPipeline u \<Rightarrow>
          (let s1 = s\<lparr>clock := Suc (clock s)\<rparr> in
           case pipeline_pass env (clock s) u of
             Inr (to, body) \<Rightarrow> Some ((emit (Sent to body) s1)\<lparr>pcs := (pcs s)(t := WRelease)\<rparr>)
           | Inl (ValueError ve) \<Rightarrow>
               Some ((emit (Logged (''Error: '' @ str_of_exc (ValueError ve))) s1)
                      \<lparr>pcs := (pcs s)(t := WSleep u)\<rparr>)
           | Inl (KeyError k) \<Rightarrow> Some (key_error_handler t (KeyError k) s1)
           | Inl e \<Rightarrow> Some (cond_wait t s1))
      | WSleep u \<Rightarrow> Some ((emit (Slept 1) s)\<lparr>pcs := (pcs s)(t := WPipeline u)\<rparr>)
      | WRelease \<Rightarrow> Some (s\<lparr>lock_owner := None, pcs := (pcs s)(t := WStart)\<rparr>)
      | WWaiting \<Rightarrow> None
      | WNotified \<Rightarrow>
          (if lock_owner s = None
           then Some (s\<lparr>lock_owner := Some t, pcs := (pcs s)(t := WWoken)\<rparr>)
           else None)
      | WWoken \<Rightarrow> Some (s\<lparr>lock_owner := None, pcs := (pcs s)(t := WStart)\<rparr>))"

section \<open>The record store\<close>

text \<open>
  Modelled from the spec: \<open>models.UserModelRepository\<close> is not among the sources. Its
  \<open>users\<close> is a dictionary from phone number to user object; \<open>get_or_create\<close> returns the
  stored record of an identity, creating one with no values for a new identity (the intake
  service creates a record on first contact); \<open>delete\<close> discards the identity's record,
  and is harmless when there is none (it is called on every RESTART message).
\<close>

definition get_or_create :: "pyval \<Rightarrow> (pyval \<times> user) list \<Rightarrow> user \<times> (pyval \<times> user) list" where
  "get_or_create k us =
     (case map_of us k of
        Some u \<Rightarrow> (u, us)
      | None \<Rightarrow> (let u = \<lparr>uuid = k, user_values = []\<rparr> in (u, AList.update k u us)))"

definition repo_delete :: "pyval \<Rightarrow> (pyval \<times> user) list \<Rightarrow> (pyval \<times> user) list" where
  "repo_delete k us = AList.delete k us"

section \<open>The request handlers\<close>

text \<open>
  The session of one browser. The handlers treat a missing \<open>user_uuid\<close> and a
  \<open>user_uuid\<close> of \<open>None\<close> alike, so both are \<open>PNone\<close> here.
\<close>

record session =
  session_user_uuid :: pyval
  session_user_vals :: "attrs option"

datatype response =
    Triage_html "attrs option" pyval
  | No_users_triage_html
  | Verdict_html
  | Twiml string

text \<open>\<open>triaging\<close> (route /triage): serves the head of \<open>user_queue\<close> to a free session.\<close>

definition triaging :: "session \<Rightarrow> state \<Rightarrow> (exc + response) \<times> session \<times> state" where
  "triaging sess s =
     (if length (user_queue s) > 0 \<or> session_user_uuid sess \<noteq> PNone then
        (if session_user_uuid sess = PNone then
           (case user_queue s of
              [] \<Rightarrow> (Inl (IndexError ''pop from an empty deque''), sess, s)
            | user # q \<Rightarrow>
                (Inr (Triage_html (Some (user_values user)) (uuid user)),
                 \<lparr>session_user_uuid = uuid user, session_user_vals = Some (user_values user)\<rparr>,
                 s\<lparr>user_queue := q\<rparr>))
         else (Inr (Triage_html (session_user_vals sess) (session_user_uuid sess)), sess, s))
      else (Inr No_users_triage_html, sess, s))"

text \<open>
  \<open>str.strip()\<close> and \<open>str.upper()\<close> on 8-bit characters: the white space of Python below
  code point 256, and the letters a to z (\<open>upper\<close> is only compared with RESTART, and no
  string with another 8-bit character has RESTART as its upper case).
\<close>

definition is_space :: "char \<Rightarrow> bool" where
  "is_space c = (let n = of_char c :: nat in
     (9 \<le> n \<and> n \<le> 13) \<or> (28 \<le> n \<and> n \<le> 32) \<or> n = 133 \<or> n = 160)"

definition strip :: "string \<Rightarrow> string" where
  "strip b = rev (dropWhile is_space (rev (dropWhile is_space b)))"

definition upper_char :: "char \<Rightarrow> char" where
  "upper_char c = (let n = of_char c :: nat in
     if 97 \<le> n \<and> n \<le> 122 then char_of (n - 32) else c)"

definition upper :: "string \<Rightarrow> string" where
  "upper b = map upper_char b"

text \<open>
  \<open>sms\<close> (route /sms): a RESTART message deletes the sender's record; the intake engine
  answers; once it reports the intake complete (\<open>cont\<close> false) the sender's record is
  appended to \<open>user_queue\<close>.
\<close>

definition sms :: "'w env \<Rightarrow> string option \<Rightarrow> string option \<Rightarrow> state \<Rightarrow> (exc + response) \<times> state" where
  "sms env from_param body_param s =
     (let phone_number = pyv from_param in
      case body_param of
        None \<Rightarrow> (Inl (AttributeError ''strip''), s)
      | Some b \<Rightarrow>
          (let message_body = strip b;
               s1 = (if upper message_body = ''RESTART''
                     then s\<lparr>users := repo_delete phone_number (users s)\<rparr> else s)
           in case get_response env phone_number message_body (users s1) of
                Inl e \<Rightarrow> (Inl e, s1)
              | Inr ((response, cont), us) \<Rightarrow>
                  (let s2 = s1\<lparr>users := us\<rparr> in
                   if \<not> cont then
                     (case map_of us phone_number of
                        None \<Rightarrow> (Inl (KeyError (str_of phone_number)), s2)
                      | Some u \<Rightarrow> (Inr (Twiml response), s2\<lparr>user_queue := user_queue s2 @ [u]\<rparr>))
                   else (Inr (Twiml response), s2))))"

text \<open>
  The dispatch branch of \<open>verdict\<close> in two parts. \<open>verdict_enqueue\<close> is lines 102 to 109:
  the record of the identity is fetched (or created), the four disposition fields are
  written into it, and under the lock it is appended to \<open>to_respond_queue\<close> and one
  waiting worker is notified. \<open>verdict_delete\<close> is line 110.
\<close>

definition attach :: "pyval \<Rightarrow> pyval \<Rightarrow> pyval \<Rightarrow> pyval \<Rightarrow> user \<Rightarrow> user" where
  "attach user_number triage_code triage_instructions get_hospital_location user =
     user\<lparr>user_values :=
       AList.update ''get_hospital'' get_hospital_location
       (AList.update ''triage_instructions'' triage_instructions
       (AList.update ''triage_code'' triage_code
       (AList.update ''phone_number'' user_number (user_values user))))\<rparr>"

definition verdict_enqueue :: "pyval \<Rightarrow> pyval \<Rightarrow> pyval \<Rightarrow> pyval \<Rightarrow> state \<Rightarrow> state" where
  "verdict_enqueue user_number triage_code triage_instructions get_hospital_location s =
     (let (user0, us) = get_or_create user_number (users s);
          user = attach user_number triage_code triage_instructions get_hospital_location user0;
          s1 = s\<lparr>users := AList.update user_number user us\<rparr>;
          s2 = (emit (Enqueued user) s1)\<lparr>to_respond_queue := to_respond_queue s1 @ [user]\<rparr>
      in cond_notify s2)"

definition verdict_delete :: "pyval \<Rightarrow> state \<Rightarrow> state" where
  "verdict_delete user_number s = s\<lparr>users := repo_delete user_number (users s)\<rparr>"

text \<open>
  \<open>verdict\<close> (route /verdict). The session is cleared first, whatever it held, so the
  session after the request does not depend on the one before. The result is \<open>None\<close>
  when the request thread cannot enter \<open>with work_available_condition\<close> because a worker
  holds the lock.
\<close>

definition cleared_session :: session where
  "cleared_session = \<lparr>session_user_uuid = PNone, session_user_vals = None\<rparr>"

definition verdict :: "string option \<Rightarrow> string option \<Rightarrow> state
    \<Rightarrow> ((exc + response) \<times> session \<times> state) option" where
  "verdict triages phonenumber s =
     (let triage_code = pyv triages;
          user_number = pyv phonenumber;
          (triage_instructions, get_hospital_location) = get_triage_instructions triage_code
      in if triage_instructions = PNone then
           (case map_of (users s) user_number of
              None \<Rightarrow> Some (Inl (KeyError (str_of user_number)), cleared_session, s)
            | Some u \<Rightarrow> Some (Inr Verdict_html, cleared_session, s\<lparr>user_queue := u # user_queue s\<rparr>))
         else if lock_owner s \<noteq> None then None
         else Some (Inr Verdict_html, cleared_session,
                verdict_delete user_number
                  (verdict_enqueue user_number triage_code triage_instructions
                     get_hospital_location s)))"

section \<open>Runs of the whole application\<close>

text \<open>
  An action is one step of a worker thread or one request. A schedule is a list of
  actions; an action that cannot move (a blocked thread or request) leaves the state as
  it is.
\<close>

datatype action =
    Work nat
  | Verdict "string option" "string option"
  | Sms "string option" "string option"
  | Triaging session

definition exec :: "'w env \<Rightarrow> action \<Rightarrow> state \<Rightarrow> state option" where
  "exec env a s =
     (case a of
        Work t \<Rightarrow> worker_step env t s
      | Verdict triages phonenumber \<Rightarrow> map_option (\<lambda>r. snd (snd r)) (verdict triages phonenumber s)
      | Sms from_param body_param \<Rightarrow> Some (snd (sms env from_param body_param s))
      | Triaging sess \<Rightarrow> Some (snd (snd (triaging sess s))))"

fun run :: "'w env \<Rightarrow> action list \<Rightarrow> state \<Rightarrow> state" where
  "run env [] s = s"
| "run env (a # as) s = (case exec env a s of None \<Rightarrow> run env as s | Some s' \<Rightarrow> run env as s')"

section \<open>Which program points hold the lock\<close>

definition holds_lock :: "wpc \<Rightarrow> bool" where
  "holds_lock pc =
     (case pc of
        WStart \<Rightarrow> False
      | WLocked \<Rightarrow> True
      | WPipeline u \<Rightarrow> True
      | WSleep u \<Rightarrow> True
      | WRelease \<Rightarrow> True
      | WWaiting \<Rightarrow> False
      | WNotified \<Rightarrow> False
      | WWoken \<Rightarrow> True)"

text \<open>
  The lock, the waiters and the program counters agree: a worker is at a program point
  inside the \<open>with\<close> block (and not suspended in \<open>wait()\<close>) exactly when it owns the
  lock, only workers own the lock, and the waiters are distinct threads suspended in
  \<open>wait()\<close>.
\<close>

definition lock_inv :: "state \<Rightarrow> bool" where
  "lock_inv s =
     (list_all (\<lambda>t. holds_lock (pcs s t) = (lock_owner s = Some t)) [0..<n_workers]
      \<and> (case lock_owner s of None \<Rightarrow> True | Some t \<Rightarrow> t < n_workers)
      \<and> list_all (\<lambda>w. pcs s w = WWaiting) (waiters s)
      \<and> distinct (waiters s))"

section \<open>Observations on runs\<close>

text \<open>The records appended to, and popped from, \<open>to_respond_queue\<close> so far, in order.\<close>

definition enqueued :: "event list \<Rightarrow> user list" where
  "enqueued tr = List.map_filter (\<lambda>ev. case ev of Enqueued u \<Rightarrow> Some u | _ \<Rightarrow> None) tr"

definition dequeued :: "event list \<Rightarrow> user list" where
  "dequeued tr = List.map_filter (\<lambda>ev. case ev of Dequeued u \<Rightarrow> Some u | _ \<Rightarrow> None) tr"

text \<open>
  The actions that call \<open>work_available_condition.notify()\<close>: a verdict with a known
  disposition code.
\<close>

definition signals :: "action \<Rightarrow> bool" where
  "signals a =
     (case a of
        Verdict triages phonenumber \<Rightarrow> fst (get_triage_instructions (pyv triages)) \<noteq> PNone
      | _ \<Rightarrow> False)"

text \<open>
  What \<open>k\<close> failed passes leave in the trace, when pass \<open>i\<close> raised \<open>ValueError(m i)\<close>:
  the printed line and the one-second sleep, \<open>k\<close> times.
\<close>

definition retry_trace :: "(nat \<Rightarrow> string) \<Rightarrow> nat \<Rightarrow> event list" where
  "retry_trace m k = concat (map (\<lambda>i. [Logged (''Error: '' @ m i), Slept 1]) [0..<k])"

section \<open>Example collaborators and inputs\<close>

text \<open>
  A matcher that finds one hospital, a notifier that accepts every message, and an intake
  engine that completes on the first message, storing it as the zip code.
\<close>

definition demo_hospital :: hospital where
  "demo_hospital =
     [(''attributes'', [(''NAME'', ''General Hospital''), (''ADDRESS'', ''1 Main St''),
        (''CITY'', ''Springfield''), (''STATE'', ''IL''), (''ZIP'', ''62701'')])]"

definition demo_env :: "nat env" where
  "demo_env =
     \<lparr>zip_code_radius = 10, twilio_number = ''+15550000'',
      get_hospital_records_within_distance = (\<lambda>n z r. Inr [demo_hospital]),
      get_match_weights = (\<lambda>n z c hs. Inr 1),
      make_hospital_choice = (\<lambda>n hs w. Inr hs),
      messages_create = (\<lambda>n f b t. Inr ()),
      get_response = (\<lambda>k b us. Inr ((''Thank you'', False),
         AList.update k \<lparr>uuid = k, user_values = [(''zip_code'', PStr b)]\<rparr> us))\<rparr>"

text \<open>The same, with a notifier that raises \<open>ValueError\<close> in the first \<open>k\<close> passes.\<close>

definition flaky_env :: "nat \<Rightarrow> nat env" where
  "flaky_env k =
     demo_env\<lparr>messages_create :=
       (\<lambda>n f b t. if n < k then Inl (ValueError ''rejected'') else Inr ())\<rparr>"

definition alice :: "string option" where
  "alice = Some ''+15550101''"

definition bob :: "string option" where
  "bob = Some ''+15550102''"

text \<open>The record that a verdict with a known code dispatches for a number without intake.\<close>

definition dispatched :: "string \<Rightarrow> string option \<Rightarrow> user" where
  "dispatched code number =
     attach (pyv number) (PStr code) (fst (get_triage_instructions (PStr code)))
       (snd (get_triage_instructions (PStr code))) \<lparr>uuid = pyv number, user_values = []\<rparr>"

text \<open>
  Two verdicts have been submitted, for Alice and then for Bob, while the notifier rejects
  the first two messages; in \<open>retrying\<close> worker 0 has taken the lock and popped Alice's
  record.
\<close>

definition two_queued :: state where
  "two_queued = run (flaky_env 2) [Verdict (Some ''home'') alice, Verdict (Some ''home'') bob] init"

definition retrying :: state where
  "retrying = run (flaky_env 2) [Work 0, Work 0] two_queued"

text \<open>
  Alice, who has no intake record and so no zip code, was given LEVEL 1, and Bob was sent
  home; worker 0 has taken the lock and popped Alice's record.
\<close>

definition no_zip_code :: state where
  "no_zip_code =
     run demo_env [Verdict (Some ''LEVEL 1'') alice, Verdict (Some ''home'') bob, Work 0, Work 0] init"

section \<open>Basic facts\<close>

lemma lock_inv_iff:
  "lock_inv s \<longleftrightarrow> (\<forall>t. t < n_workers \<longrightarrow> holds_lock (pcs s t) = (lock_owner s = Some t))
      \<and> (\<forall>t. lock_owner s = Some t \<longrightarrow> t < n_workers)
      \<and> (\<forall>w \<in> set (waiters s). pcs s w = WWaiting) \<and> distinct (waiters s)"
  by (auto simp: lock_inv_def list_all_iff split: option.splits)

lemma holds_lock_simps [simp]:
  "holds_lock WStart = False" "holds_lock WLocked = True" "holds_lock (WPipeline u) = True"
  "holds_lock (WSleep u) = True" "holds_lock WRelease = True" "holds_lock WWaiting = False"
  "holds_lock WNotified = False" "holds_lock WWoken = True"
  by (simp_all add: holds_lock_def)

lemma key_error_handler_eq [simp]: "key_error_handler t ke s = cond_wait t s"
  by (simp add: key_error_handler_def with_traceback_def)

lemma cond_wait_fields [simp]:
  "lock_owner (cond_wait t s) = None"
  "pcs (cond_wait t s) = (pcs s)(t := WWaiting)"
  "waiters (cond_wait t s) = waiters s @ [t]"
  "to_respond_queue (cond_wait t s) = to_respond_queue s"
  "user_queue (cond_wait t s) = user_queue s"
  "users (cond_wait t s) = users s"
  "clock (cond_wait t s) = clock s"
  "trace (cond_wait t s) = trace s"
  by (simp_all add: cond_wait_def)

lemma emit_fields [simp]:
  "lock_owner (emit ev s) = lock_owner s"
  "pcs (emit ev s) = pcs s"
  "waiters (emit ev s) = waiters s"
  "to_respond_queue (emit ev s) = to_respond_queue s"
  "user_queue (emit ev s) = user_queue s"
  "users (emit ev s) = users s"
  "clock (emit ev s) = clock s"
  "trace (emit ev s) = trace s @ [ev]"
  by (simp_all add: emit_def)

lemma worker_step_shape:
  assumes "worker_step env t s = Some s'"
  shows "t < n_workers \<and> pcs s' = (pcs s)(t := pcs s' t) \<and> pcs s t \<noteq> WWaiting \<and>
     (waiters s' = waiters s \<and> pcs s' t \<noteq> WWaiting \<or> waiters s' = waiters s @ [t] \<and> pcs s' t = WWaiting) \<and>
     ((lock_owner s' = lock_owner s \<and> holds_lock (pcs s' t) = holds_lock (pcs s t))
      \<or> (lock_owner s = None \<and> lock_owner s' = Some t \<and> \<not> holds_lock (pcs s t) \<and> holds_lock (pcs s' t))
      \<or> (holds_lock (pcs s t) \<and> lock_owner s' = None \<and> \<not> holds_lock (pcs s' t)))"
proof -
  from assms have t: "t < n_workers"
    by (simp add: worker_step_def split: if_splits)
  show ?thesis
  proof (cases "pcs s t")
    case (WPipeline u)
    with assms t show ?thesis
      by (cases "pipeline_pass env (clock s) u")
         (auto simp: worker_step_def Let_def split: exc.splits prod.splits)
  qed (use assms t in \<open>auto simp: worker_step_def split: if_splits list.splits\<close>)
qed

lemma lock_inv_worker_step:
  assumes "lock_inv s" "worker_step env t s = Some s'"
  shows "lock_inv s'"
proof -
  from worker_step_shape [OF assms(2)] have t: "t < n_workers"
    and pcs: "pcs s' = (pcs s)(t := pcs s' t)"
    and nw: "pcs s t \<noteq> WWaiting"
    and ws: "waiters s' = waiters s \<and> pcs s' t \<noteq> WWaiting \<or> waiters s' = waiters s @ [t] \<and> pcs s' t = WWaiting"
    and sh: "(lock_owner s' = lock_owner s \<and> holds_lock (pcs s' t) = holds_lock (pcs s t))
      \<or> (lock_owner s = None \<and> lock_owner s' = Some t \<and> \<not> holds_lock (pcs s t) \<and> holds_lock (pcs s' t))
      \<or> (holds_lock (pcs s t) \<and> lock_owner s' = None \<and> \<not> holds_lock (pcs s' t))"
    by simp_all
  from assms(1) have inv: "\<And>t'. t' < n_workers \<Longrightarrow> holds_lock (pcs s t') = (lock_owner s = Some t')"
    and own: "\<And>t'. lock_owner s = Some t' \<Longrightarrow> t' < n_workers"
    and wt: "\<And>w. w \<in> set (waiters s) \<Longrightarrow> pcs s w = WWaiting"
    and di: "distinct (waiters s)"
    by (simp_all add: lock_inv_iff)
  have "holds_lock (pcs s' t') = (lock_owner s' = Some t')" if "t' < n_workers" for t'
  proof (cases "t' = t")
    case True
    with sh inv [OF t] show ?thesis by auto
  next
    case False
    then have "pcs s' t' = pcs s t'" by (subst pcs) simp
    with sh inv [OF that] inv [OF t] False show ?thesis by auto
  qed
  moreover have "t' < n_workers" if "lock_owner s' = Some t'" for t'
    using sh that own t by auto
  moreover from nw wt have tn: "t \<notin> set (waiters s)" by auto
  have "pcs s' w = WWaiting" if "w \<in> set (waiters s')" for w
  proof (cases "w = t")
    case True
    with ws that tn show ?thesis by auto
  next
    case False
    then have "pcs s' w = pcs s w" by (subst pcs) simp
    with ws that False wt show ?thesis by auto
  qed
  moreover have "distinct (waiters s')" using ws di tn by auto
  ultimately show ?thesis by (simp add: lock_inv_iff)
qed

lemma cond_notify_fields [simp]:
  "lock_owner (cond_notify s) = lock_owner s"
  "to_respond_queue (cond_notify s) = to_respond_queue s"
  "user_queue (cond_notify s) = user_queue s"
  "users (cond_notify s) = users s"
  "clock (cond_notify s) = clock s"
  "trace (cond_notify s) = trace s"
  by (simp_all add: cond_notify_def split: list.splits)

lemma lock_inv_cond_notify:
  assumes "lock_inv s" "lock_owner s = None"
  shows "lock_inv (cond_notify s)"
proof (cases "waiters s")
  case Nil
  with assms show ?thesis by (simp add: cond_notify_def)
next
  case (Cons w ws)
  with assms show ?thesis
    by (auto simp: cond_notify_def lock_inv_iff)
qed

lemma lock_inv_cong:
  assumes "lock_inv s" "lock_owner s' = lock_owner s" "waiters s' = waiters s" "pcs s' = pcs s"
  shows "lock_inv s'"
  using assms by (simp add: lock_inv_def)

lemma verdict_enqueue_core:
  "lock_owner (verdict_enqueue k c i g s) = lock_owner s"
  "user_queue (verdict_enqueue k c i g s) = user_queue s"
  "clock (verdict_enqueue k c i g s) = clock s"
  by (simp_all add: verdict_enqueue_def Let_def split: prod.splits)

lemma lock_inv_verdict_enqueue:
  assumes "lock_inv s" "lock_owner s = None"
  shows "lock_inv (verdict_enqueue k c i g s)"
  unfolding verdict_enqueue_def Let_def
  by (auto split: prod.splits intro!: lock_inv_cond_notify intro: lock_inv_cong [OF assms(1)] simp: assms(2))

lemma lock_inv_exec:
  assumes "lock_inv s" "exec env a s = Some s'"
  shows "lock_inv s'"
proof (cases a)
  case (Work t)
  with assms show ?thesis by (auto simp: exec_def intro: lock_inv_worker_step)
next
  case (Verdict c k)
  with assms show ?thesis
    by (auto simp: exec_def verdict_def Let_def verdict_delete_def
        split: prod.splits if_splits option.splits
        intro: lock_inv_cong [OF assms(1)] lock_inv_cong [OF lock_inv_verdict_enqueue [OF assms(1)]])
next
  case (Sms f b)
  with assms show ?thesis
    by (auto simp: exec_def sms_def Let_def
        split: prod.splits if_splits option.splits sum.splits
        intro: lock_inv_cong [OF assms(1)])
next
  case (Triaging sess)
  with assms show ?thesis
    by (auto simp: exec_def triaging_def Let_def
        split: prod.splits if_splits option.splits list.splits
        intro: lock_inv_cong [OF assms(1)])
qed

lemma lock_inv_run: "lock_inv s \<Longrightarrow> lock_inv (run env sch s)"
  by (induction sch arbitrary: s) (auto split: option.splits intro: lock_inv_exec)

lemma known_code_cases:
  "c \<in> set known_codes \<longleftrightarrow> c \<in> {PStr ''home'', PStr ''LEVEL 1'', PStr ''LEVEL 2'', PStr ''LEVEL 3'',
      PStr ''LEVEL 4'', PStr ''gettest'', PStr ''checkinlater8'', PStr ''checkinlater16'',
      PStr ''checkinlater24''}"
  by (simp add: known_codes_def triage_responses_def)

lemma get_triage_instructions_unknown:
  "c \<notin> set known_codes \<Longrightarrow> get_triage_instructions c = (PNone, PNone)"
  by (simp add: get_triage_instructions_def known_codes_def map_of_eq_None_iff [THEN iffD2])

lemma known_codes_dispose:
  "list_all (\<lambda>c. fst (get_triage_instructions c) \<noteq> PNone) known_codes"
  by code_simp

lemma get_triage_instructions_known:
  "c \<in> set known_codes \<Longrightarrow> fst (get_triage_instructions c) \<noteq> PNone"
  using known_codes_dispose by (simp add: list_all_iff)

lemma known_codes_flag:
  "list_all (\<lambda>c. (snd (get_triage_instructions c) = PBool True)
      = (c \<in> set [PStr ''LEVEL 1'', PStr ''LEVEL 2'', PStr ''LEVEL 3'', PStr ''LEVEL 4''])) known_codes"
  by code_simp

lemma map_of_attach:
  "map_of (user_values (attach k c i g u)) =
     (map_of (user_values u))(''phone_number'' \<mapsto> k, ''triage_code'' \<mapsto> c,
        ''triage_instructions'' \<mapsto> i, ''get_hospital'' \<mapsto> g)"
  by (simp add: attach_def update_conv')

section \<open>The request handlers\<close>

text \<open>
  Claim C10. The facility-lookup flag returned by \<open>get_triage_instructions\<close> is
  \<open>True\<close> for exactly the four codes LEVEL 1 to LEVEL 4. For the code gettest the flag
  is \<open>False\<close> although the resolution text promises a list of nearby testing locations:
  one pass of the worker's pipeline on a record that \<open>verdict\<close> dispatched with that code
  hands the notifier exactly that text, with no facility list appended (and makes no call
  to the matcher: the result depends on the notifier alone).
\<close>

theorem facility_flag_levels_only:
  "(snd (get_triage_instructions c) = PBool True)
     = (c \<in> {PStr ''LEVEL 1'', PStr ''LEVEL 2'', PStr ''LEVEL 3'', PStr ''LEVEL 4''})
   \<and> get_triage_instructions (PStr ''gettest'') =
       (PStr ''Please get tested for COVID-19; you will be provided with a list of nearby testing locations:'',
        PBool False)
   \<and> pipeline_pass env n
        (attach k (PStr ''gettest'') (fst (get_triage_instructions (PStr ''gettest'')))
           (snd (get_triage_instructions (PStr ''gettest''))) u) =
       (case messages_create env n (twilio_number env)
               (PStr ''Please get tested for COVID-19; you will be provided with a list of nearby testing locations:'') k of
          Inl e \<Rightarrow> Inl e
        | Inr ok \<Rightarrow> Inr (k, PStr ''Please get tested for COVID-19; you will be provided with a list of nearby testing locations:''))"
proof -
  have flag: "(snd (get_triage_instructions c) = PBool True)
     = (c \<in> {PStr ''LEVEL 1'', PStr ''LEVEL 2'', PStr ''LEVEL 3'', PStr ''LEVEL 4''})"
  proof (cases "c \<in> set known_codes")
    case True
    with known_codes_flag show ?thesis
      by (simp add: list_all_iff)
  next
    case False
    then have "get_triage_instructions c = (PNone, PNone)"
      by (rule get_triage_instructions_unknown)
    moreover from False have "c \<notin> {PStr ''LEVEL 1'', PStr ''LEVEL 2'', PStr ''LEVEL 3'', PStr ''LEVEL 4''}"
      by (auto simp: known_code_cases)
    ultimately show ?thesis by simp
  qed
  have gettest: "get_triage_instructions (PStr ''gettest'') =
       (PStr ''Please get tested for COVID-19; you will be provided with a list of nearby testing locations:'',
        PBool False)"
    by (simp add: get_triage_instructions_def triage_responses_def)
  have pass: "pipeline_pass env n
        (attach k (PStr ''gettest'') (fst (get_triage_instructions (PStr ''gettest'')))
           (snd (get_triage_instructions (PStr ''gettest''))) u) =
       (case messages_create env n (twilio_number env)
               (PStr ''Please get tested for COVID-19; you will be provided with a list of nearby testing locations:'') k of
          Inl e \<Rightarrow> Inl e
        | Inr ok \<Rightarrow> Inr (k, PStr ''Please get tested for COVID-19; you will be provided with a list of nearby testing locations:''))"
    unfolding gettest
    by (simp add: pipeline_pass_def and_then_def getitem_def map_of_attach truthy_def
        split: sum.splits)
  from flag gettest pass show ?thesis by blast
qed

text \<open>
  Claim C8, as stated, fails. A verdict submission with an unknown code for a phone number
  of which the record store holds no record is treated as an error: the lookup
  \<open>user_model_repo.users[user_number]\<close> on line 99 raises \<open>KeyError\<close>, and nothing
  is pushed to the front of \<open>user_queue\<close>. That is so for a number that never texted,
  and also for Alice after her intake, her review and a dispatching verdict, which has
  deleted her record.
\<close>

theorem unknown_code_without_record_raises:
  "pyv (Some ''requeue'') \<notin> set known_codes
   \<and> map_option fst (verdict (Some ''requeue'') alice init)
       = Some (Inl (KeyError ''+15550101''))
   \<and> map_option (\<lambda>r. user_queue (snd (snd r))) (verdict (Some ''requeue'') alice init)
       = Some []
   \<and> map_option fst (verdict (Some ''requeue'') alice
        (run demo_env [Sms alice (Some ''94110''), Triaging cleared_session,
                       Verdict (Some ''home'') alice] init))
       = Some (Inl (KeyError ''+15550101''))
   \<and> map_option (\<lambda>r. user_queue (snd (snd r))) (verdict (Some ''requeue'') alice
        (run demo_env [Sms alice (Some ''94110''), Triaging cleared_session,
                       Verdict (Some ''home'') alice] init))
       = Some []"
  by code_simp

text \<open>
  Claim C8, amended. For every verdict submission whose disposition code is not in the
  known set, the instruction lookup yields no disposition (\<open>None\<close>, \<open>None\<close>), the
  request is never held up by the lock, no disposition field is attached to any record of
  the store and nothing is enqueued for dispatch. When the record store holds a record for
  the submitted phone number, that record, as stored, is pushed to the front of
  \<open>user_queue\<close>, nothing else changes, and the request succeeds.
\<close>

theorem unknown_code_requeues:
  assumes "pyv triages \<notin> set known_codes"
  shows "get_triage_instructions (pyv triages) = (PNone, PNone)
    \<and> (case verdict triages phonenumber s of
          None \<Rightarrow> False
        | Some (r, sess, s') \<Rightarrow>
            sess = cleared_session \<and> to_respond_queue s' = to_respond_queue s
            \<and> users s' = users s \<and> trace s' = trace s)
    \<and> (map_of (users s) (pyv phonenumber) = Some u \<longrightarrow>
         verdict triages phonenumber s =
           Some (Inr Verdict_html, cleared_session, s\<lparr>user_queue := u # user_queue s\<rparr>))"
  using assms
  by (cases "map_of (users s) (pyv phonenumber)")
     (simp_all add: get_triage_instructions_unknown verdict_def)

theorem unknown_code_requeues_witness:
  "pyv (Some ''requeue'') \<notin> set known_codes
   \<and> map_of (users (run demo_env [Sms alice (Some ''94110'')] init)) (pyv alice)
       = Some \<lparr>uuid = PStr ''+15550101'', user_values = [(''zip_code'', PStr ''94110'')]\<rparr>
   \<and> get_triage_instructions (pyv (Some ''requeue'')) = (PNone, PNone)
   \<and> verdict (Some ''requeue'') alice (run demo_env [Sms alice (Some ''94110'')] init) =
        Some (Inr Verdict_html, cleared_session,
          (run demo_env [Sms alice (Some ''94110'')] init)
            \<lparr>user_queue := \<lparr>uuid = PStr ''+15550101'', user_values = [(''zip_code'', PStr ''94110'')]\<rparr>
                # user_queue (run demo_env [Sms alice (Some ''94110'')] init)\<rparr>)"
proof -
  have a: "pyv (Some ''requeue'') \<notin> set known_codes"
    by code_simp
  have b: "map_of (users (run demo_env [Sms alice (Some ''94110'')] init)) (pyv alice)
       = Some \<lparr>uuid = PStr ''+15550101'', user_values = [(''zip_code'', PStr ''94110'')]\<rparr>"
    by code_simp
  from a b unknown_code_requeues [OF a,
      where phonenumber = alice and s = "run demo_env [Sms alice (Some ''94110'')] init"
        and u = "\<lparr>uuid = PStr ''+15550101'', user_values = [(''zip_code'', PStr ''94110'')]\<rparr>"]
  show ?thesis by blast
qed

text \<open>
  Claim C7, as stated, fails. After the intake of Alice and then of Bob has completed,
  \<open>user_queue\<close> holds Alice's record and then Bob's. A requeue of Alice (a verdict with
  an unknown code) pushes her record to the front and leaves her earlier entry where it
  was, so the next two dequeues by free sessions both serve Alice, not Alice and then Bob.
\<close>

theorem requeue_keeps_old_entry:
  "user_queue (run demo_env [Sms alice (Some ''94110''), Sms bob (Some ''10001'')] init) =
     [\<lparr>uuid = pyv alice, user_values = [(''zip_code'', PStr ''94110'')]\<rparr>,
      \<lparr>uuid = pyv bob, user_values = [(''zip_code'', PStr ''10001'')]\<rparr>]
   \<and> fst (triaging cleared_session
        (run demo_env [Sms alice (Some ''94110''), Sms bob (Some ''10001''),
                       Verdict (Some ''requeue'') alice] init)) =
       Inr (Triage_html (Some [(''zip_code'', PStr ''94110'')]) (pyv alice))
   \<and> fst (triaging cleared_session
        (run demo_env [Sms alice (Some ''94110''), Sms bob (Some ''10001''),
                       Verdict (Some ''requeue'') alice, Triaging cleared_session] init)) =
       Inr (Triage_html (Some [(''zip_code'', PStr ''94110'')]) (pyv alice))
   \<and> fst (triaging cleared_session
        (run demo_env [Sms alice (Some ''94110''), Sms bob (Some ''10001''),
                       Verdict (Some ''requeue'') alice, Triaging cleared_session] init)) \<noteq>
       Inr (Triage_html (Some [(''zip_code'', PStr ''10001'')]) (pyv bob))"
  by code_simp

text \<open>
  Claim C7, amended. A requeue of the record \<open>a\<close> to the front followed by two head
  dequeues yields \<open>a\<close> first and then the record \<open>b\<close> that was at the head before the
  requeue: the requeued record precedes every pending record. When \<open>a\<close> has been dequeued
  for review before it is requeued, as the triage page does, \<open>b\<close> is the next pending
  record (the witness: Alice, Bob enqueued, Alice dequeued and requeued; the dequeues yield
  Alice, then Bob).
\<close>

theorem requeue_precedence:
  assumes "pyv triages \<notin> set known_codes"
    and "map_of (users s) (pyv phonenumber) = Some a"
    and "user_queue s = b # q"
  shows "verdict triages phonenumber s =
           Some (Inr Verdict_html, cleared_session, s\<lparr>user_queue := a # b # q\<rparr>)
    \<and> triaging cleared_session (s\<lparr>user_queue := a # b # q\<rparr>) =
        (Inr (Triage_html (Some (user_values a)) (uuid a)),
         \<lparr>session_user_uuid = uuid a, session_user_vals = Some (user_values a)\<rparr>,
         s\<lparr>user_queue := b # q\<rparr>)
    \<and> triaging cleared_session (s\<lparr>user_queue := b # q\<rparr>) =
        (Inr (Triage_html (Some (user_values b)) (uuid b)),
         \<lparr>session_user_uuid = uuid b, session_user_vals = Some (user_values b)\<rparr>,
         s\<lparr>user_queue := q\<rparr>)"
  using assms
  by (simp add: get_triage_instructions_unknown verdict_def triaging_def cleared_session_def)

theorem requeue_precedence_witness:
  "pyv (Some ''requeue'') \<notin> set known_codes
   \<and> map_of (users (run demo_env [Sms alice (Some ''94110''), Sms bob (Some ''10001''),
          Triaging cleared_session] init)) (pyv alice)
       = Some \<lparr>uuid = pyv alice, user_values = [(''zip_code'', PStr ''94110'')]\<rparr>
   \<and> user_queue (run demo_env [Sms alice (Some ''94110''), Sms bob (Some ''10001''),
          Triaging cleared_session] init)
       = [\<lparr>uuid = pyv bob, user_values = [(''zip_code'', PStr ''10001'')]\<rparr>]
   \<and> fst (triaging cleared_session
        ((run demo_env [Sms alice (Some ''94110''), Sms bob (Some ''10001''),
            Triaging cleared_session] init)
          \<lparr>user_queue := [\<lparr>uuid = pyv alice, user_values = [(''zip_code'', PStr ''94110'')]\<rparr>,
                           \<lparr>uuid = pyv bob, user_values = [(''zip_code'', PStr ''10001'')]\<rparr>]\<rparr>))
       = Inr (Triage_html (Some [(''zip_code'', PStr ''94110'')]) (pyv alice))
   \<and> fst (triaging cleared_session
        ((run demo_env [Sms alice (Some ''94110''), Sms bob (Some ''10001''),
            Triaging cleared_session] init)
          \<lparr>user_queue := [\<lparr>uuid = pyv bob, user_values = [(''zip_code'', PStr ''10001'')]\<rparr>]\<rparr>))
       = Inr (Triage_html (Some [(''zip_code'', PStr ''10001'')]) (pyv bob))"
proof -
  have a: "pyv (Some ''requeue'') \<notin> set known_codes"
    by code_simp
  have b: "map_of (users (run demo_env [Sms alice (Some ''94110''), Sms bob (Some ''10001''),
          Triaging cleared_session] init)) (pyv alice)
       = Some \<lparr>uuid = pyv alice, user_values = [(''zip_code'', PStr ''94110'')]\<rparr>"
    by code_simp
  have c: "user_queue (run demo_env [Sms alice (Some ''94110''), Sms bob (Some ''10001''),
          Triaging cleared_session] init)
       = [\<lparr>uuid = pyv bob, user_values = [(''zip_code'', PStr ''10001'')]\<rparr>]"
    by code_simp
  from requeue_precedence [OF a b c] a b c show ?thesis
    by simp
qed

lemma verdict_enqueue_queue:
  "to_respond_queue (verdict_enqueue k c i g s) =
     to_respond_queue s @ [attach k c i g (fst (get_or_create k (users s)))]"
  by (simp add: verdict_enqueue_def Let_def split: prod.splits)

lemma verdict_enqueue_users:
  "users (verdict_enqueue k c i g s) =
     AList.update k (attach k c i g (fst (get_or_create k (users s))))
       (snd (get_or_create k (users s)))"
  by (simp add: verdict_enqueue_def Let_def split: prod.splits)

lemma verdict_enqueue_trace:
  "trace (verdict_enqueue k c i g s) =
     trace s @ [Enqueued (attach k c i g (fst (get_or_create k (users s))))]"
  by (simp add: verdict_enqueue_def Let_def split: prod.splits)

text \<open>
  Claim C4, as stated, fails. Two verdicts for the same phone number, with no worker step
  in between, leave two records of that identity in \<open>to_respond_queue\<close>. And the
  identity is not removed from the record store before the append: in the state in which
  the record has just been appended (after lines 102 to 109), the store still holds it.
\<close>

theorem duplicate_identity_in_dispatch_queue:
  "map uuid (to_respond_queue
      (run demo_env [Verdict (Some ''home'') alice, Verdict (Some ''home'') alice] init))
     = [pyv alice, pyv alice]
   \<and> to_respond_queue (verdict_enqueue (pyv alice) (PStr ''home'')
        (fst (get_triage_instructions (PStr ''home''))) (snd (get_triage_instructions (PStr ''home'')))
        init) = [dispatched ''home'' alice]
   \<and> map_of (users (verdict_enqueue (pyv alice) (PStr ''home'')
        (fst (get_triage_instructions (PStr ''home''))) (snd (get_triage_instructions (PStr ''home'')))
        init)) (pyv alice) = Some (dispatched ''home'' alice)"
  by code_simp

text \<open>
  Claim C4, amended. A verdict with a known code appends the identity's record to the tail
  of \<open>to_respond_queue\<close> while the record store still holds that record, and removes the
  identity from the store only afterwards; when the request returns, the store holds no
  record of the identity. Each such verdict appends one record, whatever the queue holds.
\<close>

theorem verdict_appends_then_deletes:
  assumes "pyv triages \<in> set known_codes"
    and "lock_owner s = None"
  shows "let user_number = pyv phonenumber;
             triage_code = pyv triages;
             user = attach user_number triage_code (fst (get_triage_instructions triage_code))
                      (snd (get_triage_instructions triage_code))
                      (fst (get_or_create user_number (users s)));
             appended = verdict_enqueue user_number triage_code
                      (fst (get_triage_instructions triage_code))
                      (snd (get_triage_instructions triage_code)) s
         in to_respond_queue appended = to_respond_queue s @ [user]
          \<and> map_of (users appended) user_number = Some user
          \<and> verdict triages phonenumber s =
              Some (Inr Verdict_html, cleared_session, verdict_delete user_number appended)
          \<and> to_respond_queue (verdict_delete user_number appended) = to_respond_queue s @ [user]
          \<and> map_of (users (verdict_delete user_number appended)) user_number = None"
proof -
  from assms(1) have "fst (get_triage_instructions (pyv triages)) \<noteq> PNone"
    by (rule get_triage_instructions_known)
  with assms(2) show ?thesis
    by (simp add: verdict_def Let_def split_beta verdict_delete_def repo_delete_def
        verdict_enqueue_queue verdict_enqueue_users update_conv' delete_conv')
qed

theorem verdict_appends_then_deletes_witness:
  "pyv (Some ''home'') \<in> set known_codes \<and> lock_owner init = None
   \<and> to_respond_queue (verdict_enqueue (pyv alice) (PStr ''home'')
        (fst (get_triage_instructions (PStr ''home'')))
        (snd (get_triage_instructions (PStr ''home''))) init) = [dispatched ''home'' alice]
   \<and> verdict (Some ''home'') alice init =
        Some (Inr Verdict_html, cleared_session,
          verdict_delete (pyv alice) (verdict_enqueue (pyv alice) (PStr ''home'')
            (fst (get_triage_instructions (PStr ''home'')))
            (snd (get_triage_instructions (PStr ''home''))) init))
   \<and> map_of (users (verdict_delete (pyv alice) (verdict_enqueue (pyv alice) (PStr ''home'')
            (fst (get_triage_instructions (PStr ''home'')))
            (snd (get_triage_instructions (PStr ''home''))) init))) (pyv alice) = None"
proof -
  have a: "pyv (Some ''home'') \<in> set known_codes"
    by code_simp
  have b: "lock_owner init = None"
    by (simp add: init_def)
  have c: "to_respond_queue init = []" "fst (get_or_create (pyv alice) (users init))
      = \<lparr>uuid = pyv alice, user_values = []\<rparr>"
    by (simp_all add: init_def get_or_create_def Let_def)
  from verdict_appends_then_deletes [OF a b, of alice] a b c show ?thesis
    by (simp add: Let_def dispatched_def pyv_def)
qed

section \<open>Runs: what the other threads and requests leave alone\<close>

lemma run_append:
  "run env (xs @ ys) s = run env ys (run env xs s)"
  by (induction xs arbitrary: s) (auto split: option.splits)

lemma run_snoc:
  "run env (xs @ [a]) s =
     (case exec env a (run env xs s) of None \<Rightarrow> run env xs s | Some s' \<Rightarrow> s')"
  by (simp add: run_append split: option.splits)

lemma dequeued_snoc [simp]:
  "dequeued (tr @ [ev]) = dequeued tr @ (case ev of Dequeued u \<Rightarrow> [u] | _ \<Rightarrow> [])"
  by (simp add: dequeued_def List.map_filter_def split: event.splits)

lemma enqueued_snoc [simp]:
  "enqueued (tr @ [ev]) = enqueued tr @ (case ev of Enqueued u \<Rightarrow> [u] | _ \<Rightarrow> [])"
  by (simp add: enqueued_def List.map_filter_def split: event.splits)

text \<open>The requests: what each of them leaves alone.\<close>

lemma sms_core:
  assumes "sms env f b s = (r, s')"
  shows "to_respond_queue s' = to_respond_queue s \<and> lock_owner s' = lock_owner s
    \<and> waiters s' = waiters s \<and> pcs s' = pcs s \<and> clock s' = clock s \<and> trace s' = trace s"
  using assms
  by (auto simp: sms_def Let_def split: option.splits sum.splits prod.splits if_splits)

lemma triaging_core:
  assumes "triaging sess s = (r, sess', s')"
  shows "to_respond_queue s' = to_respond_queue s \<and> lock_owner s' = lock_owner s
    \<and> waiters s' = waiters s \<and> pcs s' = pcs s \<and> clock s' = clock s \<and> trace s' = trace s"
  using assms
  by (auto simp: triaging_def split: list.splits if_splits)

lemma verdict_requeue_core:
  assumes "verdict c k s = Some (r, sess', s')" "fst (get_triage_instructions (pyv c)) = PNone"
  shows "to_respond_queue s' = to_respond_queue s \<and> lock_owner s' = lock_owner s
    \<and> waiters s' = waiters s \<and> pcs s' = pcs s \<and> clock s' = clock s \<and> trace s' = trace s"
  using assms
  by (auto simp: verdict_def Let_def split_beta split: option.splits)

lemma verdict_dispatch_locked:
  assumes "fst (get_triage_instructions (pyv c)) \<noteq> PNone" "lock_owner s \<noteq> None"
  shows "verdict c k s = None"
  using assms by (auto simp: verdict_def Let_def split_beta)

lemma verdict_dispatch_eq:
  assumes "verdict c k s = Some (r, sess', s')" "fst (get_triage_instructions (pyv c)) \<noteq> PNone"
  shows "s' = verdict_delete (pyv k)
           (verdict_enqueue (pyv k) (pyv c) (fst (get_triage_instructions (pyv c)))
              (snd (get_triage_instructions (pyv c))) s)"
  using assms
  by (auto simp: verdict_def Let_def split_beta split: if_splits)

text \<open>While a worker holds the lock, nobody else changes the dispatch side of the state.\<close>

lemma blocked_worker:
  assumes "lock_inv s" "lock_owner s = Some t" "t' \<noteq> t"
  shows "worker_step env t' s = None"
proof (cases "t' < n_workers")
  case False
  then show ?thesis by (simp add: worker_step_def)
next
  case True
  with assms have "\<not> holds_lock (pcs s t')"
    by (simp add: lock_inv_iff)
  with assms(2) True show ?thesis
    by (cases "pcs s t'") (simp_all add: worker_step_def)
qed

lemma frame_exec:
  assumes "lock_inv s" "lock_owner s = Some t" "a \<noteq> Work t" "exec env a s = Some s'"
  shows "to_respond_queue s' = to_respond_queue s \<and> lock_owner s' = lock_owner s
    \<and> waiters s' = waiters s \<and> pcs s' = pcs s \<and> clock s' = clock s \<and> trace s' = trace s"
proof (cases a)
  case (Work t')
  with assms(3) have "t' \<noteq> t" by simp
  from blocked_worker [OF assms(1,2) this, of env] Work assms(4) show ?thesis
    by (simp add: exec_def)
next
  case (Verdict c k)
  show ?thesis
  proof (cases "fst (get_triage_instructions (pyv c)) = PNone")
    case True
    with Verdict assms(4) show ?thesis
      by (auto simp: exec_def dest: verdict_requeue_core)
  next
    case False
    with assms(2) have "verdict c k s = None"
      by (simp add: verdict_dispatch_locked)
    with Verdict assms(4) show ?thesis by (simp add: exec_def)
  qed
next
  case (Sms f b)
  with assms(4) show ?thesis
    using sms_core [of env f b s "fst (sms env f b s)" "snd (sms env f b s)"]
    by (auto simp: exec_def)
next
  case (Triaging sess)
  with assms(4) show ?thesis
    using triaging_core [of sess s "fst (triaging sess s)" "fst (snd (triaging sess s))"
        "snd (snd (triaging sess s))"]
    by (auto simp: exec_def)
qed

text \<open>A thread suspended in \<open>wait()\<close> stays there until some action signals.\<close>

lemma stays_waiting_exec:
  assumes "pcs s t = WWaiting" "\<not> signals a" "exec env a s = Some s'"
  shows "pcs s' t = WWaiting"
proof (cases a)
  case (Work t')
  with assms(3) have st: "worker_step env t' s = Some s'" by (simp add: exec_def)
  from worker_step_shape [OF st] have "pcs s' = (pcs s)(t' := pcs s' t')" "pcs s t' \<noteq> WWaiting"
    by simp_all
  with assms(1) show ?thesis by (metis fun_upd_other)
next
  case (Verdict c k)
  with assms(2) have "fst (get_triage_instructions (pyv c)) = PNone"
    by (simp add: signals_def)
  with Verdict assms(1,3) show ?thesis
    by (auto simp: exec_def dest: verdict_requeue_core)
next
  case (Sms f b)
  with assms(1,3) show ?thesis
    using sms_core [of env f b s "fst (sms env f b s)" "snd (sms env f b s)"]
    by (auto simp: exec_def)
next
  case (Triaging sess)
  with assms(1,3) show ?thesis
    using triaging_core [of sess s "fst (triaging sess s)" "fst (snd (triaging sess s))"
        "snd (snd (triaging sess s))"]
    by (auto simp: exec_def)
qed

lemma stays_waiting_run:
  assumes "pcs s t = WWaiting" "list_all (\<lambda>a. \<not> signals a) sch"
  shows "pcs (run env sch s) t = WWaiting"
  using assms
proof (induction sch arbitrary: s)
  case Nil
  then show ?case by simp
next
  case (Cons a sch)
  show ?case
  proof (cases "exec env a s")
    case None
    with Cons show ?thesis by simp
  next
    case (Some s')
    with Cons.prems have "pcs s' t = WWaiting"
      by (auto intro: stays_waiting_exec)
    with Cons Some show ?thesis by simp
  qed
qed

text \<open>Pops follow appends.\<close>

lemma fifo_worker_step:
  assumes "worker_step env t s = Some s'"
    and "dequeued (trace s) @ to_respond_queue s = enqueued (trace s)"
  shows "dequeued (trace s') @ to_respond_queue s' = enqueued (trace s')"
proof (cases "pcs s t")
  case (WPipeline u)
  with assms show ?thesis
    by (cases "pipeline_pass env (clock s) u")
       (auto simp: worker_step_def Let_def split: exc.splits prod.splits if_splits)
qed (use assms in \<open>auto simp: worker_step_def split: if_splits list.splits\<close>)

lemma fifo_exec:
  assumes "exec env a s = Some s'"
    and "dequeued (trace s) @ to_respond_queue s = enqueued (trace s)"
  shows "dequeued (trace s') @ to_respond_queue s' = enqueued (trace s')"
proof (cases a)
  case (Work t)
  with assms show ?thesis by (auto simp: exec_def intro: fifo_worker_step)
next
  case (Verdict c k)
  show ?thesis
  proof (cases "fst (get_triage_instructions (pyv c)) = PNone")
    case True
    with Verdict assms show ?thesis
      by (auto simp: exec_def dest: verdict_requeue_core)
  next
    case False
    with Verdict assms(1) have "s' = verdict_delete (pyv k)
           (verdict_enqueue (pyv k) (pyv c) (fst (get_triage_instructions (pyv c)))
              (snd (get_triage_instructions (pyv c))) s)"
      by (auto simp: exec_def dest: verdict_dispatch_eq)
    with assms(2) show ?thesis
      by (simp add: verdict_delete_def verdict_enqueue_queue verdict_enqueue_trace)
  qed
next
  case (Sms f b)
  with assms show ?thesis
    using sms_core [of env f b s "fst (sms env f b s)" "snd (sms env f b s)"]
    by (auto simp: exec_def)
next
  case (Triaging sess)
  with assms show ?thesis
    using triaging_core [of sess s "fst (triaging sess s)" "fst (snd (triaging sess s))"
        "snd (snd (triaging sess s))"]
    by (auto simp: exec_def)
qed

lemma fifo_run:
  "dequeued (trace s) @ to_respond_queue s = enqueued (trace s) \<Longrightarrow>
   dequeued (trace (run env sch s)) @ to_respond_queue (run env sch s)
     = enqueued (trace (run env sch s))"
  by (induction sch arbitrary: s) (auto split: option.splits intro: fifo_exec)

lemma lock_inv_init: "lock_inv init"
  by (simp add: lock_inv_def init_def list_all_iff)

section \<open>Retries of one record\<close>

lemma retry_trace_Suc:
  "retry_trace m (Suc k) = retry_trace m k @ [Logged (''Error: '' @ m k), Slept 1]"
  by (simp add: retry_trace_def)

lemma retry_trace_0 [simp]: "retry_trace m 0 = []"
  by (simp add: retry_trace_def)

lemma step_value_error:
  assumes "t < n_workers" "pcs s t = WPipeline u"
    and "pipeline_pass env (clock s) u = Inl (ValueError ve)"
  shows "worker_step env t s =
    Some ((emit (Logged (''Error: '' @ ve)) (s\<lparr>clock := Suc (clock s)\<rparr>))\<lparr>pcs := (pcs s)(t := WSleep u)\<rparr>)"
  using assms by (simp add: worker_step_def str_of_exc_def)

lemma step_sleep:
  assumes "t < n_workers" "pcs s t = WSleep u"
  shows "worker_step env t s = Some ((emit (Slept 1) s)\<lparr>pcs := (pcs s)(t := WPipeline u)\<rparr>)"
  using assms by (simp add: worker_step_def)

lemma step_sent:
  assumes "t < n_workers" "pcs s t = WPipeline u"
    and "pipeline_pass env (clock s) u = Inr (to, body)"
  shows "worker_step env t s =
    Some ((emit (Sent to body) (s\<lparr>clock := Suc (clock s)\<rparr>))\<lparr>pcs := (pcs s)(t := WRelease)\<rparr>)"
  using assms by (simp add: worker_step_def)

lemma step_other:
  assumes "t < n_workers" "pcs s t = WPipeline u"
    and "pipeline_pass env (clock s) u = Inl e" "\<And>ve. e \<noteq> ValueError ve"
  shows "worker_step env t s = Some (cond_wait t (s\<lparr>clock := Suc (clock s)\<rparr>))"
  using assms by (cases e) (auto simp: worker_step_def)

lemma count_list_snoc:
  "count_list (xs @ [a]) x = count_list xs x + (if a = x then 1 else 0)"
  by (induction xs) auto

lemma retry_run:
  assumes inv: "lock_inv s" and t: "t < n_workers" and pc: "pcs s t = WPipeline u"
    and fail: "\<And>i. i < k \<Longrightarrow> pipeline_pass env (clock s + i) u = Inl (ValueError (m i))"
  shows "count_list sch (Work t) \<le> 2 * k \<Longrightarrow>
     lock_inv (run env sch s) \<and> lock_owner (run env sch s) = Some t
     \<and> to_respond_queue (run env sch s) = to_respond_queue s
     \<and> waiters (run env sch s) = waiters s
     \<and> (\<forall>t'. t' \<noteq> t \<longrightarrow> pcs (run env sch s) t' = pcs s t')
     \<and> (\<forall>j. count_list sch (Work t) = 2 * j \<longrightarrow>
           pcs (run env sch s) t = WPipeline u \<and> clock (run env sch s) = clock s + j
           \<and> trace (run env sch s) = trace s @ retry_trace m j)
     \<and> (\<forall>j. count_list sch (Work t) = 2 * j + 1 \<longrightarrow>
           pcs (run env sch s) t = WSleep u \<and> clock (run env sch s) = clock s + j + 1
           \<and> trace (run env sch s) = trace s @ retry_trace m j @ [Logged (''Error: '' @ m j)])"
proof (induction sch rule: rev_induct)
  case Nil
  from inv t pc have "lock_owner s = Some t"
    by (auto simp: lock_inv_iff)
  with inv pc show ?case by simp
next
  case (snoc a sch)
  let ?s1 = "run env sch s"
  from snoc.prems have le: "count_list sch (Work t) \<le> 2 * k"
    by (simp add: count_list_snoc split: if_splits)
  note IH = snoc.IH [OF le]
  show ?case
  proof (cases "a = Work t")
    case False
    then have cnt: "count_list (sch @ [a]) (Work t) = count_list sch (Work t)"
      by (simp add: count_list_snoc)
    show ?thesis
    proof (cases "exec env a ?s1")
      case None
      with IH cnt show ?thesis by (simp add: run_snoc)
    next
      case (Some s')
      from IH have "lock_inv ?s1" "lock_owner ?s1 = Some t" by simp_all
      from frame_exec [OF this False Some] lock_inv_exec [OF this(1) Some] IH cnt Some
      show ?thesis by (simp add: run_snoc)
    qed
  next
    case True
    then have cnt: "count_list (sch @ [a]) (Work t) = Suc (count_list sch (Work t))"
      by (simp add: count_list_snoc)
    with snoc.prems have lt: "count_list sch (Work t) < 2 * k" by simp
    from IH have inv1: "lock_inv ?s1" by simp
    from IH have own1: "lock_owner ?s1 = Some t" and q1: "to_respond_queue ?s1 = to_respond_queue s"
      and w1: "waiters ?s1 = waiters s" and o1: "\<And>t'. t' \<noteq> t \<Longrightarrow> pcs ?s1 t' = pcs s t'"
      by simp_all
    show ?thesis
    proof (cases "even (count_list sch (Work t))")
      case True
      then obtain j where j: "count_list sch (Work t) = 2 * j" by (auto elim: evenE)
      with lt have jk: "j < k" by simp
      from IH j have pc1: "pcs ?s1 t = WPipeline u" and cl1: "clock ?s1 = clock s + j"
        and tr1: "trace ?s1 = trace s @ retry_trace m j" by simp_all
      from fail [OF jk] cl1 have "pipeline_pass env (clock ?s1) u = Inl (ValueError (m j))"
        by simp
      from step_value_error [OF t pc1 this]
      have st: "exec env a ?s1 = Some ((emit (Logged (''Error: '' @ m j)) (?s1\<lparr>clock := Suc (clock ?s1)\<rparr>))
          \<lparr>pcs := (pcs ?s1)(t := WSleep u)\<rparr>)" (is "_ = Some ?s2")
        using \<open>a = Work t\<close> by (simp add: exec_def)
      then have r: "run env (sch @ [a]) s = ?s2" by (simp add: run_snoc)
      have n: "count_list (sch @ [a]) (Work t) = 2 * j + 1" using cnt j by simp
      have "lock_inv ?s2" by (rule lock_inv_exec [OF inv1 st])
      moreover have "lock_owner ?s2 = Some t" "to_respond_queue ?s2 = to_respond_queue s"
        "waiters ?s2 = waiters s" "\<forall>t'. t' \<noteq> t \<longrightarrow> pcs ?s2 t' = pcs s t'"
        using own1 q1 w1 o1 by simp_all
      moreover have "\<forall>j'. 2 * j + 1 = 2 * j' \<longrightarrow>
           pcs ?s2 t = WPipeline u \<and> clock ?s2 = clock s + j'
           \<and> trace ?s2 = trace s @ retry_trace m j'"
        by presburger
      moreover have "\<forall>j'. 2 * j + 1 = 2 * j' + 1 \<longrightarrow>
           pcs ?s2 t = WSleep u \<and> clock ?s2 = clock s + j' + 1
           \<and> trace ?s2 = trace s @ retry_trace m j' @ [Logged (''Error: '' @ m j')]"
        using cl1 tr1 by simp
      ultimately show ?thesis unfolding r n by blast
    next
      case False
      then obtain j where j: "count_list sch (Work t) = 2 * j + 1" by (auto elim: oddE)
      from IH j have pc1: "pcs ?s1 t = WSleep u" and cl1: "clock ?s1 = clock s + j + 1"
        and tr1: "trace ?s1 = trace s @ retry_trace m j @ [Logged (''Error: '' @ m j)]"
        by simp_all
      from step_sleep [OF t pc1]
      have st: "exec env a ?s1 = Some ((emit (Slept 1) ?s1)\<lparr>pcs := (pcs ?s1)(t := WPipeline u)\<rparr>)"
        (is "_ = Some ?s2")
        using \<open>a = Work t\<close> by (simp add: exec_def)
      then have r: "run env (sch @ [a]) s = ?s2" by (simp add: run_snoc)
      have n: "count_list (sch @ [a]) (Work t) = 2 * Suc j" using cnt j by simp
      have "lock_inv ?s2" by (rule lock_inv_exec [OF inv1 st])
      moreover have "lock_owner ?s2 = Some t" "to_respond_queue ?s2 = to_respond_queue s"
        "waiters ?s2 = waiters s" "\<forall>t'. t' \<noteq> t \<longrightarrow> pcs ?s2 t' = pcs s t'"
        using own1 q1 w1 o1 by simp_all
      moreover have "\<forall>j'. 2 * Suc j = 2 * j' \<longrightarrow>
           pcs ?s2 t = WPipeline u \<and> clock ?s2 = clock s + j'
           \<and> trace ?s2 = trace s @ retry_trace m j'"
      proof (intro allI impI)
        fix j' assume "2 * Suc j = 2 * j'"
        then have "j' = Suc j" by simp
        with cl1 tr1 show "pcs ?s2 t = WPipeline u \<and> clock ?s2 = clock s + j'
           \<and> trace ?s2 = trace s @ retry_trace m j'"
          by (simp add: retry_trace_Suc)
      qed
      moreover have "\<forall>j'. 2 * Suc j = 2 * j' + 1 \<longrightarrow>
           pcs ?s2 t = WSleep u \<and> clock ?s2 = clock s + j' + 1
           \<and> trace ?s2 = trace s @ retry_trace m j' @ [Logged (''Error: '' @ m j')]"
        by presburger
      ultimately show ?thesis unfolding r n by blast
    qed
  qed
qed

lemma deliver_run:
  assumes inv: "lock_inv s" and t: "t < n_workers" and pc: "pcs s t = WPipeline u"
    and fail: "\<And>i. i < k \<Longrightarrow> pipeline_pass env (clock s + i) u = Inl (ValueError (m i))"
    and succ: "pipeline_pass env (clock s + k) u = Inr (to, body)"
  shows "count_list sch (Work t) = 2 * k + 1 \<Longrightarrow>
     lock_inv (run env sch s) \<and> lock_owner (run env sch s) = Some t
     \<and> to_respond_queue (run env sch s) = to_respond_queue s
     \<and> waiters (run env sch s) = waiters s
     \<and> (\<forall>t'. t' \<noteq> t \<longrightarrow> pcs (run env sch s) t' = pcs s t')
     \<and> pcs (run env sch s) t = WRelease
     \<and> trace (run env sch s) = trace s @ retry_trace m k @ [Sent to body]"
proof (induction sch rule: rev_induct)
  case Nil
  then show ?case by simp
next
  case (snoc a sch)
  let ?s1 = "run env sch s"
  show ?case
  proof (cases "a = Work t")
    case False
    with snoc.prems have cnt: "count_list sch (Work t) = 2 * k + 1"
      by (simp add: count_list_snoc)
    note IH = snoc.IH [OF cnt]
    show ?thesis
    proof (cases "exec env a ?s1")
      case None
      with IH show ?thesis by (simp add: run_snoc)
    next
      case (Some s')
      from IH have "lock_inv ?s1" "lock_owner ?s1 = Some t" by simp_all
      from frame_exec [OF this False Some] lock_inv_exec [OF this(1) Some] IH Some
      show ?thesis by (simp add: run_snoc)
    qed
  next
    case True
    with snoc.prems have cnt: "count_list sch (Work t) = 2 * k"
      by (simp add: count_list_snoc)
    then have "count_list sch (Work t) \<le> 2 * k" by simp
    note R = retry_run [OF inv t pc fail this]
    from R cnt have inv1: "lock_inv ?s1" and pc1: "pcs ?s1 t = WPipeline u"
      and cl1: "clock ?s1 = clock s + k" and tr1: "trace ?s1 = trace s @ retry_trace m k"
      by simp_all
    from succ cl1 have "pipeline_pass env (clock ?s1) u = Inr (to, body)" by simp
    from step_sent [OF t pc1 this]
    have st: "exec env a ?s1 = Some ((emit (Sent to body) (?s1\<lparr>clock := Suc (clock ?s1)\<rparr>))
          \<lparr>pcs := (pcs ?s1)(t := WRelease)\<rparr>)"
      using \<open>a = Work t\<close> by (simp add: exec_def)
    from lock_inv_exec [OF inv1 st] R st tr1 show ?thesis
      by (auto simp: run_snoc)
  qed
qed

lemma flaky_pass:
  "pipeline_pass (flaky_env k) n (dispatched ''home'' alice) =
     (if n < k then Inl (ValueError ''rejected'')
      else Inr (PStr ''+15550101'', PStr ''Stay at home, rest, and take medication as necessary''))"
  by (simp add: pipeline_pass_def flaky_env_def demo_env_def dispatched_def map_of_attach
      and_then_def getitem_def truthy_def get_triage_instructions_def triage_responses_def
      alice_def pyv_def)

section \<open>The worker pool\<close>

text \<open>
  Claim C1, as stated, fails. Exclusive access is not released before the follow-up
  pipeline runs: after worker 0 has entered the \<open>with\<close> block and popped Alice's record
  it is at the top of the inner loop and owns the lock, and it still owns the lock after
  the pass that sends her message.
\<close>

theorem lock_held_during_pipeline:
  "pcs (run demo_env [Verdict (Some ''home'') alice, Work 0, Work 0] init) 0
     = WPipeline (dispatched ''home'' alice)
   \<and> lock_owner (run demo_env [Verdict (Some ''home'') alice, Work 0, Work 0] init) = Some 0
   \<and> trace (run demo_env [Verdict (Some ''home'') alice, Work 0, Work 0, Work 0] init) =
       [Enqueued (dispatched ''home'' alice), Dequeued (dispatched ''home'' alice),
        Sent (PStr ''+15550101'') (PStr ''Stay at home, rest, and take medication as necessary'')]
   \<and> lock_owner (run demo_env [Verdict (Some ''home'') alice, Work 0, Work 0, Work 0] init) = Some 0"
  by code_simp

text \<open>
  Claim C1, amended. In every state the application reaches, a worker owns the lock
  exactly while it is inside the \<open>with\<close> block and not suspended in \<open>wait()\<close>: from
  entering the block, through the emptiness check and the removal of the head, through
  every pass of the follow-up pipeline and every sleep between retries, until it leaves the
  block after the pipeline has ended. If the queue is empty the worker releases the lock
  and suspends (it cannot move); once signalled it takes the lock again, leaves the
  block, and enters it anew to check the queue again.
\<close>

theorem lock_held_throughout_iteration:
  "(t < n_workers \<longrightarrow>
      holds_lock (pcs (run env sch init) t) = (lock_owner (run env sch init) = Some t))
   \<and> (t < n_workers \<and> pcs s t = WLocked \<and> to_respond_queue s = [] \<longrightarrow>
        worker_step env t s = Some (cond_wait t s)
        \<and> lock_owner (cond_wait t s) = None
        \<and> worker_step env t (cond_wait t s) = None)
   \<and> (t < n_workers \<and> pcs s' t = WNotified \<and> lock_owner s' = None \<longrightarrow>
        pcs (run env [Work t] s') t = WWoken
        \<and> lock_owner (run env [Work t] s') = Some t
        \<and> pcs (run env [Work t, Work t] s') t = WStart
        \<and> lock_owner (run env [Work t, Work t] s') = None
        \<and> pcs (run env [Work t, Work t, Work t] s') t = WLocked
        \<and> to_respond_queue (run env [Work t, Work t, Work t] s') = to_respond_queue s')"
proof (intro conjI impI)
  assume "t < n_workers"
  with lock_inv_run [OF lock_inv_init, of env sch]
  show "holds_lock (pcs (run env sch init) t) = (lock_owner (run env sch init) = Some t)"
    by (simp add: lock_inv_iff)
next
  assume a: "t < n_workers \<and> pcs s t = WLocked \<and> to_respond_queue s = []"
  then show "worker_step env t s = Some (cond_wait t s)"
    by (simp add: worker_step_def)
  show "lock_owner (cond_wait t s) = None" by simp
  from a show "worker_step env t (cond_wait t s) = None"
    by (simp add: worker_step_def)
next
  assume a: "t < n_workers \<and> pcs s' t = WNotified \<and> lock_owner s' = None"
  then show "pcs (run env [Work t] s') t = WWoken"
    "lock_owner (run env [Work t] s') = Some t"
    "pcs (run env [Work t, Work t] s') t = WStart"
    "lock_owner (run env [Work t, Work t] s') = None"
    "pcs (run env [Work t, Work t, Work t] s') t = WLocked"
    "to_respond_queue (run env [Work t, Work t, Work t] s') = to_respond_queue s'"
    by (simp_all add: exec_def worker_step_def)
qed

theorem lock_held_throughout_iteration_witness:
  "(0::nat) < n_workers
   \<and> pcs (run demo_env [Verdict (Some ''home'') alice, Work 0, Work 0] init) 0
       = WPipeline (dispatched ''home'' alice)
   \<and> holds_lock (pcs (run demo_env [Verdict (Some ''home'') alice, Work 0, Work 0] init) 0)
       = (lock_owner (run demo_env [Verdict (Some ''home'') alice, Work 0, Work 0] init) = Some 0)
   \<and> lock_owner (run demo_env [Verdict (Some ''home'') alice, Work 0, Work 0] init) = Some 0
   \<and> pcs (run demo_env [Work 0] init) 0 = WLocked
   \<and> to_respond_queue (run demo_env [Work 0] init) = []
   \<and> worker_step demo_env 0 (run demo_env [Work 0] init)
       = Some (cond_wait 0 (run demo_env [Work 0] init))
   \<and> worker_step demo_env 0 (cond_wait 0 (run demo_env [Work 0] init)) = None
   \<and> pcs (run demo_env [Work 0, Work 0, Verdict (Some ''home'') alice] init) 0 = WNotified
   \<and> lock_owner (run demo_env [Work 0, Work 0, Verdict (Some ''home'') alice] init) = None
   \<and> pcs (run demo_env [Work 0, Work 0, Work 0]
        (run demo_env [Work 0, Work 0, Verdict (Some ''home'') alice] init)) 0 = WLocked"
proof -
  have a: "(0::nat) < n_workers" by (simp add: n_workers_def)
  have b: "pcs (run demo_env [Verdict (Some ''home'') alice, Work 0, Work 0] init) 0
       = WPipeline (dispatched ''home'' alice)"
    by code_simp
  have c: "pcs (run demo_env [Work 0] init) 0 = WLocked"
    "to_respond_queue (run demo_env [Work 0] init) = []"
    by code_simp+
  have d: "pcs (run demo_env [Work 0, Work 0, Verdict (Some ''home'') alice] init) 0 = WNotified"
    "lock_owner (run demo_env [Work 0, Work 0, Verdict (Some ''home'') alice] init) = None"
    by code_simp+
  from lock_held_throughout_iteration [of 0 demo_env
      "[Verdict (Some ''home'') alice, Work 0, Work 0]" "run demo_env [Work 0] init"
      "run demo_env [Work 0, Work 0, Verdict (Some ''home'') alice] init"] a b c d
  show ?thesis by simp
qed

text \<open>
  Claim C6. In every state the application reaches, under any interleaving of worker steps
  and requests, the records dequeued from \<open>to_respond_queue\<close> so far, followed by the
  records still in it, are the records enqueued so far, in the order of their enqueue:
  records are dequeued in the order in which they were enqueued. The enqueue of
  \<open>verdict\<close> appends at the tail, and the worker's dequeue removes the head.
\<close>

theorem dispatch_queue_fifo:
  "dequeued (trace (run env sch init)) @ to_respond_queue (run env sch init)
     = enqueued (trace (run env sch init))
   \<and> to_respond_queue (verdict_enqueue k c i g s)
       = to_respond_queue s @ [attach k c i g (fst (get_or_create k (users s)))]
   \<and> trace (verdict_enqueue k c i g s)
       = trace s @ [Enqueued (attach k c i g (fst (get_or_create k (users s))))]
   \<and> (t < n_workers \<and> pcs s t = WLocked \<and> to_respond_queue s = u # q \<longrightarrow>
        worker_step env t s =
          Some ((emit (Dequeued u) s)\<lparr>to_respond_queue := q, pcs := (pcs s)(t := WPipeline u)\<rparr>))"
proof (intro conjI impI)
  show "dequeued (trace (run env sch init)) @ to_respond_queue (run env sch init)
     = enqueued (trace (run env sch init))"
    by (rule fifo_run) (simp add: init_def dequeued_def enqueued_def)
next
  assume "t < n_workers \<and> pcs s t = WLocked \<and> to_respond_queue s = u # q"
  then show "worker_step env t s =
          Some ((emit (Dequeued u) s)\<lparr>to_respond_queue := q, pcs := (pcs s)(t := WPipeline u)\<rparr>)"
    by (simp add: worker_step_def)
qed (simp_all add: verdict_enqueue_queue verdict_enqueue_trace)

theorem dispatch_queue_fifo_witness:
  "enqueued (trace (run demo_env [Verdict (Some ''home'') alice, Verdict (Some ''gettest'') bob,
       Work 0, Work 0, Work 0, Work 0, Work 1, Work 1] init))
     = [dispatched ''home'' alice, dispatched ''gettest'' bob]
   \<and> to_respond_queue (run demo_env [Verdict (Some ''home'') alice, Verdict (Some ''gettest'') bob,
       Work 0, Work 0, Work 0, Work 0, Work 1, Work 1] init) = []
   \<and> dequeued (trace (run demo_env [Verdict (Some ''home'') alice, Verdict (Some ''gettest'') bob,
       Work 0, Work 0, Work 0, Work 0, Work 1, Work 1] init))
     = [dispatched ''home'' alice, dispatched ''gettest'' bob]"
proof -
  have a: "enqueued (trace (run demo_env [Verdict (Some ''home'') alice, Verdict (Some ''gettest'') bob,
       Work 0, Work 0, Work 0, Work 0, Work 1, Work 1] init))
     = [dispatched ''home'' alice, dispatched ''gettest'' bob]"
    by code_simp
  have b: "to_respond_queue (run demo_env [Verdict (Some ''home'') alice, Verdict (Some ''gettest'') bob,
       Work 0, Work 0, Work 0, Work 0, Work 1, Work 1] init) = []"
    by code_simp
  from dispatch_queue_fifo [of demo_env "[Verdict (Some ''home'') alice, Verdict (Some ''gettest'') bob,
       Work 0, Work 0, Work 0, Work 0, Work 1, Work 1]"] a b
  show ?thesis by simp
qed

text \<open>
  Claim C3 does not hold of the code. Alice's record has the facility flag set and no
  \<open>zip_code\<close>, so the pass raises \<open>KeyError\<close>. The handler evaluates
  \<open>ke.with_traceback()\<close> before it prints, which raises \<open>TypeError\<close>; that leaves the
  inner loop and lands in the bare \<open>except\<close>, which calls \<open>wait()\<close>. Nothing is
  logged, and the worker is suspended although Bob's record is in the queue: further steps
  of worker 0 change nothing.
\<close>

theorem missing_attribute_suspends_worker:
  "pcs no_zip_code 0 = WPipeline (dispatched ''LEVEL 1'' alice)
   \<and> to_respond_queue no_zip_code = [dispatched ''home'' bob]
   \<and> pipeline_pass demo_env (clock no_zip_code) (dispatched ''LEVEL 1'' alice)
       = Inl (KeyError ''zip_code'')
   \<and> pcs (run demo_env [Work 0] no_zip_code) 0 = WWaiting
   \<and> trace (run demo_env [Work 0] no_zip_code) = trace no_zip_code
   \<and> trace no_zip_code = [Enqueued (dispatched ''LEVEL 1'' alice), Enqueued (dispatched ''home'' bob),
        Dequeued (dispatched ''LEVEL 1'' alice)]
   \<and> to_respond_queue (run demo_env [Work 0] no_zip_code) = [dispatched ''home'' bob]
   \<and> worker_step demo_env 0 (run demo_env [Work 0] no_zip_code) = None
   \<and> pcs (run demo_env [Work 0, Work 0, Work 0, Work 0] no_zip_code) 0 = WWaiting
   \<and> to_respond_queue (run demo_env [Work 0, Work 0, Work 0, Work 0] no_zip_code)
       = [dispatched ''home'' bob]"
  by code_simp

text \<open>
  Claim C9. When a pass of the pipeline raises an exception that \<open>except ValueError\<close>
  does not catch (a \<open>KeyError\<close> included, whose handler raises \<open>TypeError\<close> from
  \<open>ke.with_traceback()\<close>), the worker ends up in the bare \<open>except\<close>, as it does when
  the queue is empty: it calls \<open>wait()\<close>. The record is dropped without a log line or a
  message, the lock is released, the queue is left as it is, empty or not, and the worker
  stays suspended under every schedule with no signalling enqueue.
\<close>

theorem other_exception_suspends_worker:
  assumes "t < n_workers" and "pcs s t = WPipeline u"
    and "pipeline_pass env (clock s) u = Inl e" and "\<not> is_value_error e"
  shows "worker_step env t s = Some (cond_wait t (s\<lparr>clock := Suc (clock s)\<rparr>))
    \<and> pcs (cond_wait t (s\<lparr>clock := Suc (clock s)\<rparr>)) t = WWaiting
    \<and> lock_owner (cond_wait t (s\<lparr>clock := Suc (clock s)\<rparr>)) = None
    \<and> to_respond_queue (cond_wait t (s\<lparr>clock := Suc (clock s)\<rparr>)) = to_respond_queue s
    \<and> trace (cond_wait t (s\<lparr>clock := Suc (clock s)\<rparr>)) = trace s
    \<and> worker_step env t (cond_wait t (s\<lparr>clock := Suc (clock s)\<rparr>)) = None
    \<and> (list_all (\<lambda>a. \<not> signals a) sch \<longrightarrow>
         pcs (run env sch (cond_wait t (s\<lparr>clock := Suc (clock s)\<rparr>))) t = WWaiting)
    \<and> worker_step env t (s\<lparr>to_respond_queue := [], pcs := (pcs s)(t := WLocked)\<rparr>)
        = Some (cond_wait t (s\<lparr>to_respond_queue := [], pcs := (pcs s)(t := WLocked)\<rparr>))"
proof -
  from assms(4) have "\<And>ve. e \<noteq> ValueError ve"
    by (auto simp: is_value_error_def)
  from step_other [OF assms(1-3) this]
  have "worker_step env t s = Some (cond_wait t (s\<lparr>clock := Suc (clock s)\<rparr>))" .
  moreover have "worker_step env t (cond_wait t (s\<lparr>clock := Suc (clock s)\<rparr>)) = None"
    using assms(1) by (simp add: worker_step_def)
  moreover have "list_all (\<lambda>a. \<not> signals a) sch \<longrightarrow>
         pcs (run env sch (cond_wait t (s\<lparr>clock := Suc (clock s)\<rparr>))) t = WWaiting"
    by (auto intro: stays_waiting_run)
  moreover have "worker_step env t (s\<lparr>to_respond_queue := [], pcs := (pcs s)(t := WLocked)\<rparr>)
        = Some (cond_wait t (s\<lparr>to_respond_queue := [], pcs := (pcs s)(t := WLocked)\<rparr>))"
    using assms(1) by (simp add: worker_step_def)
  ultimately show ?thesis by simp
qed

theorem other_exception_suspends_worker_witness:
  "(0::nat) < n_workers
   \<and> pcs no_zip_code 0 = WPipeline (dispatched ''LEVEL 1'' alice)
   \<and> pipeline_pass demo_env (clock no_zip_code) (dispatched ''LEVEL 1'' alice)
       = Inl (KeyError ''zip_code'')
   \<and> \<not> is_value_error (KeyError ''zip_code'')
   \<and> list_all (\<lambda>a. \<not> signals a)
        [Work 0, Work 1, Sms alice (Some ''94110''), Verdict (Some ''requeue'') alice, Work 0]
   \<and> to_respond_queue no_zip_code = [dispatched ''home'' bob]
   \<and> worker_step demo_env 0 no_zip_code
       = Some (cond_wait 0 (no_zip_code\<lparr>clock := Suc (clock no_zip_code)\<rparr>))
   \<and> to_respond_queue (cond_wait 0 (no_zip_code\<lparr>clock := Suc (clock no_zip_code)\<rparr>))
       = [dispatched ''home'' bob]
   \<and> pcs (run demo_env
        [Work 0, Work 1, Sms alice (Some ''94110''), Verdict (Some ''requeue'') alice, Work 0]
        (cond_wait 0 (no_zip_code\<lparr>clock := Suc (clock no_zip_code)\<rparr>))) 0 = WWaiting"
proof -
  have a: "(0::nat) < n_workers" by (simp add: n_workers_def)
  have b: "pcs no_zip_code 0 = WPipeline (dispatched ''LEVEL 1'' alice)"
    by code_simp
  have c: "pipeline_pass demo_env (clock no_zip_code) (dispatched ''LEVEL 1'' alice)
       = Inl (KeyError ''zip_code'')"
    by code_simp
  have d: "\<not> is_value_error (KeyError ''zip_code'')"
    by (simp add: is_value_error_def)
  have e: "list_all (\<lambda>a. \<not> signals a)
        [Work 0, Work 1, Sms alice (Some ''94110''), Verdict (Some ''requeue'') alice, Work 0]"
    by code_simp
  have f: "to_respond_queue no_zip_code = [dispatched ''home'' bob]"
    by code_simp
  from other_exception_suspends_worker [OF a b c d,
      of "[Work 0, Work 1, Sms alice (Some ''94110''), Verdict (Some ''requeue'') alice, Work 0]"]
    a b c d e f
  show ?thesis by simp
qed

lemma dequeued_append:
  "dequeued (xs @ ys) = dequeued xs @ dequeued ys"
  by (simp add: dequeued_def List.map_filter_def)

lemma dequeued_other [simp]:
  "dequeued [] = []"
  "dequeued (Logged l # tr) = dequeued tr"
  "dequeued (Slept n # tr) = dequeued tr"
  "dequeued (Sent x y # tr) = dequeued tr"
  "dequeued (Enqueued u # tr) = dequeued tr"
  "dequeued (Dequeued u # tr) = u # dequeued tr"
  by (simp_all add: dequeued_def)

lemma dequeued_retry_trace:
  "dequeued (retry_trace m j) = []"
  by (induction j) (simp_all add: retry_trace_Suc dequeued_append)

text \<open>
  Claim C5. When the pipeline raises the retryable error (\<open>ValueError\<close>) on \<open>k\<close>
  successive passes for a dequeued record, then under every interleaving, once the worker
  has taken its \<open>2 * k\<close> steps it has printed the failure and slept one second \<open>k\<close>
  times, in that order, and is at the top of the inner loop with the same record again.
  The record is in the worker's hands and never back in \<open>to_respond_queue\<close>, which is
  unchanged; this holds for every \<open>k\<close>: there is no cap.
\<close>

theorem transient_failure_retries_in_place:
  assumes "lock_inv s" and "t < n_workers" and "pcs s t = WPipeline u"
    and "\<forall>i<k. pipeline_pass env (clock s + i) u = Inl (ValueError (m i))"
    and "count_list sch (Work t) = 2 * k"
  shows "pcs (run env sch s) t = WPipeline u
    \<and> lock_owner (run env sch s) = Some t
    \<and> to_respond_queue (run env sch s) = to_respond_queue s
    \<and> clock (run env sch s) = clock s + k
    \<and> trace (run env sch s) = trace s @ retry_trace m k"
proof -
  from assms(4) have fail: "\<And>i. i < k \<Longrightarrow> pipeline_pass env (clock s + i) u = Inl (ValueError (m i))"
    by simp
  from assms(5) have "count_list sch (Work t) \<le> 2 * k" by simp
  from retry_run [OF assms(1-3) fail this] assms(5) show ?thesis
    by simp
qed

theorem transient_failure_retries_in_place_witness:
  "lock_inv retrying \<and> (0::nat) < n_workers
   \<and> pcs retrying 0 = WPipeline (dispatched ''home'' alice)
   \<and> pipeline_pass (flaky_env 2) (clock retrying + 0) (dispatched ''home'' alice)
       = Inl (ValueError ''rejected'')
   \<and> pipeline_pass (flaky_env 2) (clock retrying + 1) (dispatched ''home'' alice)
       = Inl (ValueError ''rejected'')
   \<and> count_list [Work 0, Work 1, Work 0, Verdict (Some ''home'') bob, Work 0, Work 1, Work 0]
        (Work 0) = 2 * 2
   \<and> pcs (run (flaky_env 2)
        [Work 0, Work 1, Work 0, Verdict (Some ''home'') bob, Work 0, Work 1, Work 0] retrying) 0
       = WPipeline (dispatched ''home'' alice)
   \<and> to_respond_queue (run (flaky_env 2)
        [Work 0, Work 1, Work 0, Verdict (Some ''home'') bob, Work 0, Work 1, Work 0] retrying)
       = [dispatched ''home'' bob]
   \<and> trace (run (flaky_env 2)
        [Work 0, Work 1, Work 0, Verdict (Some ''home'') bob, Work 0, Work 1, Work 0] retrying)
       = trace retrying @ [Logged ''Error: rejected'', Slept 1, Logged ''Error: rejected'', Slept 1]"
proof -
  have a: "lock_inv retrying"
    unfolding retrying_def two_queued_def by (intro lock_inv_run lock_inv_init)
  have b: "(0::nat) < n_workers" by (simp add: n_workers_def)
  have c: "pcs retrying 0 = WPipeline (dispatched ''home'' alice)"
    by code_simp
  have cl: "clock retrying = 0"
    by code_simp
  have d: "\<forall>i<2. pipeline_pass (flaky_env 2) (clock retrying + i) (dispatched ''home'' alice)
       = Inl (ValueError ((\<lambda>i. ''rejected'') i))"
    by (simp add: flaky_pass cl)
  have e: "count_list [Work 0, Work 1, Work 0, Verdict (Some ''home'') bob, Work 0, Work 1, Work 0]
        (Work 0) = 2 * 2"
    by simp
  have f: "to_respond_queue retrying = [dispatched ''home'' bob]"
    by code_simp
  have g: "retry_trace (\<lambda>i. ''rejected'') 2
      = [Logged ''Error: rejected'', Slept 1, Logged ''Error: rejected'', Slept 1]"
    by code_simp
  from transient_failure_retries_in_place [OF a b c d e] a b c d e f g
  show ?thesis by (simp add: flaky_pass cl)
qed

text \<open>
  Claim C2, as stated, fails in its second half. While worker 0 retries Alice's record
  (here it is about to sleep after the first rejected message) Bob's record is in the
  queue, and worker 1, at the top of its loop, cannot move: it needs the lock that worker 0
  holds through its retries. However often worker 1 is scheduled during the retries, Bob's
  record stays in the queue.
\<close>

theorem retry_blocks_other_worker:
  "to_respond_queue retrying = [dispatched ''home'' bob]
   \<and> pcs (run (flaky_env 2) [Work 0] retrying) 0 = WSleep (dispatched ''home'' alice)
   \<and> pcs (run (flaky_env 2) [Work 0] retrying) 1 = WStart
   \<and> to_respond_queue (run (flaky_env 2) [Work 0] retrying) = [dispatched ''home'' bob]
   \<and> worker_step (flaky_env 2) 1 (run (flaky_env 2) [Work 0] retrying) = None
   \<and> to_respond_queue (run (flaky_env 2) [Work 0, Work 1, Work 0, Work 1, Work 0, Work 1, Work 0, Work 1]
        retrying) = [dispatched ''home'' bob]
   \<and> pcs (run (flaky_env 2) [Work 0, Work 1, Work 0, Work 1, Work 0, Work 1, Work 0, Work 1]
        retrying) 1 = WStart"
  by code_simp

text \<open>
  Claim C2, amended. When the pipeline raises the retryable error on \<open>k\<close> successive
  passes for a record and then succeeds, then under every interleaving the record is
  delivered with the worker's step \<open>2 * k + 1\<close>: after exactly \<open>k\<close> retries, each after
  a printed failure and a sleep of one second. Until then the retrying worker owns the lock:
  \<open>to_respond_queue\<close> stays as it was, nothing is dequeued from it, and no other
  worker moves.
\<close>

theorem transient_failure_delivery:
  assumes "lock_inv s" and "t < n_workers" and "pcs s t = WPipeline u"
    and "\<forall>i<k. pipeline_pass env (clock s + i) u = Inl (ValueError (m i))"
    and "pipeline_pass env (clock s + k) u = Inr (to, body)"
    and "count_list sch (Work t) \<le> 2 * k + 1"
  shows "lock_owner (run env sch s) = Some t
    \<and> to_respond_queue (run env sch s) = to_respond_queue s
    \<and> dequeued (trace (run env sch s)) = dequeued (trace s)
    \<and> (\<forall>t'. t' \<noteq> t \<longrightarrow> pcs (run env sch s) t' = pcs s t')
    \<and> (count_list sch (Work t) = 2 * k + 1 \<longrightarrow>
         pcs (run env sch s) t = WRelease
         \<and> trace (run env sch s) = trace s @ retry_trace m k @ [Sent to body])"
proof -
  from assms(4) have fail: "\<And>i. i < k \<Longrightarrow> pipeline_pass env (clock s + i) u = Inl (ValueError (m i))"
    by simp
  have deq: "dequeued (tr @ retry_trace m j) = dequeued tr"
    "dequeued (tr @ retry_trace m j @ [Logged l]) = dequeued tr"
    "dequeued (tr @ retry_trace m j @ [Sent x y]) = dequeued tr" for tr j l x y
    by (simp_all add: dequeued_append dequeued_retry_trace)
  show ?thesis
  proof (cases "count_list sch (Work t) = 2 * k + 1")
    case True
    from deliver_run [OF assms(1-3) fail assms(5) True] True show ?thesis
      by (simp add: deq)
  next
    case False
    with assms(6) have le: "count_list sch (Work t) \<le> 2 * k" by simp
    note R = retry_run [OF assms(1-3) fail le]
    have "dequeued (trace (run env sch s)) = dequeued (trace s)"
    proof (cases "even (count_list sch (Work t))")
      case True
      then obtain j where "count_list sch (Work t) = 2 * j" by (auto elim: evenE)
      with R show ?thesis by (simp add: deq)
    next
      case False
      then obtain j where "count_list sch (Work t) = 2 * j + 1" by (auto elim: oddE)
      with R show ?thesis by (simp add: deq)
    qed
    with R False show ?thesis by simp
  qed
qed

theorem transient_failure_delivery_witness:
  "lock_inv retrying \<and> (0::nat) < n_workers
   \<and> pcs retrying 0 = WPipeline (dispatched ''home'' alice)
   \<and> pipeline_pass (flaky_env 2) (clock retrying + 0) (dispatched ''home'' alice)
       = Inl (ValueError ''rejected'')
   \<and> pipeline_pass (flaky_env 2) (clock retrying + 1) (dispatched ''home'' alice)
       = Inl (ValueError ''rejected'')
   \<and> pipeline_pass (flaky_env 2) (clock retrying + 2) (dispatched ''home'' alice)
       = Inr (PStr ''+15550101'', PStr ''Stay at home, rest, and take medication as necessary'')
   \<and> count_list [Work 0, Work 1, Work 0, Work 1, Work 0, Work 0, Work 1, Work 0] (Work 0) = 2 * 2 + 1
   \<and> to_respond_queue (run (flaky_env 2)
        [Work 0, Work 1, Work 0, Work 1, Work 0, Work 0, Work 1, Work 0] retrying)
       = [dispatched ''home'' bob]
   \<and> pcs (run (flaky_env 2)
        [Work 0, Work 1, Work 0, Work 1, Work 0, Work 0, Work 1, Work 0] retrying) 0 = WRelease
   \<and> trace (run (flaky_env 2)
        [Work 0, Work 1, Work 0, Work 1, Work 0, Work 0, Work 1, Work 0] retrying)
       = trace retrying @ [Logged ''Error: rejected'', Slept 1, Logged ''Error: rejected'', Slept 1,
           Sent (PStr ''+15550101'') (PStr ''Stay at home, rest, and take medication as necessary'')]"
proof -
  have a: "lock_inv retrying"
    unfolding retrying_def two_queued_def by (intro lock_inv_run lock_inv_init)
  have b: "(0::nat) < n_workers" by (simp add: n_workers_def)
  have c: "pcs retrying 0 = WPipeline (dispatched ''home'' alice)"
    by code_simp
  have cl: "clock retrying = 0"
    by code_simp
  have d: "\<forall>i<2. pipeline_pass (flaky_env 2) (clock retrying + i) (dispatched ''home'' alice)
       = Inl (ValueError ((\<lambda>i. ''rejected'') i))"
    by (simp add: flaky_pass cl)
  have d': "pipeline_pass (flaky_env 2) (clock retrying + 2) (dispatched ''home'' alice)
       = Inr (PStr ''+15550101'', PStr ''Stay at home, rest, and take medication as necessary'')"
    by (simp add: flaky_pass cl)
  have e: "count_list [Work 0, Work 1, Work 0, Work 1, Work 0, Work 0, Work 1, Work 0] (Work 0)
      = 2 * 2 + 1"
    by simp
  then have e': "count_list [Work 0, Work 1, Work 0, Work 1, Work 0, Work 0, Work 1, Work 0] (Work 0)
      \<le> 2 * 2 + 1"
    by simp
  have f: "to_respond_queue retrying = [dispatched ''home'' bob]"
    by code_simp
  have g: "retry_trace (\<lambda>i. ''rejected'') 2
      = [Logged ''Error: rejected'', Slept 1, Logged ''Error: rejected'', Slept 1]"
    by code_simp
  from transient_failure_delivery [OF a b c d d' e'] a b c d' e f g
  show ?thesis by (simp add: flaky_pass cl)
qed


end
